theory Spec2Isabelle
  imports Main
begin

section \<open>Strings and messages\<close>

text \<open>Decimal digits of a number, as JavaScript prints an integer.\<close>

function natToString :: "nat \<Rightarrow> string" where
  "natToString n =
     (if n < 10 then [''0123456789'' ! n]
      else natToString (n div 10) @ [''0123456789'' ! (n mod 10)])"
  by pat_completeness auto
termination
  by (relation "measure id") auto

declare natToString.simps [simp del]

text \<open>
  A message of a conversation with the model. The content is a string or an array of
  parts; an array is kept as its JSON text. A message read from an old stored state may
  lack the content, and its role may be empty.
\<close>

datatype MessageContent = Text string | Parts string | NoContent

record Message =
  role :: string
  content :: MessageContent

section \<open>State migration\<close>

text \<open>
  \<^verbatim>\<open>StateMigration.migrateIfNeeded\<close> reads the persisted state as it was stored,
  possibly by an older version of the code, and probes it for keys that the type
  \<^verbatim>\<open>CodeGenState\<close> does not have. A stored file is an object of any shape: a map from
  key names to values. A property that is missing reads as \<^verbatim>\<open>undefined\<close>.
\<close>

datatype JsValue = JsString string | JsNumber int | JsBool bool | JsNull | JsUndefined

type_synonym JsObject = "string \<rightharpoonup> JsValue"







text \<open>\<^verbatim>\<open>type ConversationMessage = Message & { conversationId: string }\<close>; an old message may lack the id.\<close>

record ConversationMessage = Message +
  conversationId :: "string option"
















text \<open>The parts of the stored state that the migration reads.\<close>

record StoredInferenceContext =
  userApiKeys :: "string option"
  agentId :: string
  userId :: string

record TemplateDetails =
  name :: string

record StoredBlueprint =
  projectName :: string

text \<open>
  The stored state. A key that older versions wrote and a key that they did not write
  yet is an \<open>option\<close>: \<open>None\<close> when the key is not in the object. An empty project name
  stands for a missing one too. All other keys of the state are in the extension part
  of the record and are carried along, as the object spread does.
\<close>

record StoredState =
  generatedFilesMap :: "(string \<times> JsObject) list"
  conversationMessages :: "ConversationMessage list option"
  inferenceContext :: "StoredInferenceContext option"
  latestScreenshot :: "string option"
  projectUpdatesAccumulator :: "string list option"
  templateDetails :: "TemplateDetails option"
  templateName :: string
  projectName :: string
  blueprint :: "StoredBlueprint option"
  query :: string





text \<open>Concrete stored states for the properties of the migration.\<close>





section \<open>Data model of the code generator agent\<close>

text \<open>
  The types of \<^verbatim>\<open>worker/agents/core/state.ts\<close> and of the schemas it imports.
  A TypeScript interface is a record, an enum a datatype, an optional field an
  \<open>option\<close>. JavaScript numbers that hold counters are \<open>int\<close>.
\<close>

datatype CurrentDevState = IDLE | PHASE_GENERATING | PHASE_IMPLEMENTING | REVIEWING | FINALIZING

record FileConceptType =
  path :: string
  purpose :: string
  changes :: "string option"

record PhaseConceptType =
  name :: string
  description :: string
  files :: "FileConceptType list"
  lastPhase :: bool

text \<open>\<^verbatim>\<open>interface PhaseState extends PhaseConceptType { completed: boolean }\<close>\<close>

record PhaseState = PhaseConceptType +
  completed :: bool

record FileOutputType =
  filePath :: string
  fileContents :: string
  filePurpose :: string

text \<open>\<^verbatim>\<open>interface FileState extends FileOutputType { lastDiff: string }\<close>\<close>

record FileState = FileOutputType +
  lastDiff :: string

record Blueprint =
  title :: string
  projectName :: string
  initialPhase :: PhaseConceptType

record CodeGenState =
  blueprint :: Blueprint
  projectName :: string
  query :: string
  generatedFilesMap :: "string \<rightharpoonup> FileState"
  generatedPhases :: "PhaseState list"
  templateName :: string
  sandboxInstanceId :: "string option"
  shouldBeGenerating :: bool
  mvpGenerated :: bool
  reviewingInitiated :: bool
  phasesCounter :: int
  pendingUserInputs :: "string list"
  currentDevState :: CurrentDevState
  reviewCycles :: "int option"
  currentPhase :: "PhaseConceptType option"
  lastDeepDebugTranscript :: "string option"

text \<open>
  Messages sent to the connected clients. Only the message type and the payload fields
  that the properties below talk about are kept.
\<close>

datatype WebSocketMessage =
    GENERATION_STARTED
  | GENERATION_COMPLETE
  | PROJECT_NAME_UPDATED string
  | ERROR string
  | RATE_LIMIT_ERROR

text \<open>
  The application registry row (written through \<^verbatim>\<open>AppService.updateApp\<close>) and the
  sandbox service are external collaborators.
\<close>

record AppRow =
  appTitle :: string
  appStatus :: string

text \<open>
  The agent object: the persisted \<^verbatim>\<open>state\<close>, the private fields of
  \<^verbatim>\<open>SimpleCodeGeneratorAgent\<close>, and the effects it has on the outside (messages
  broadcast, registry row, name of the sandbox project). A promise is
  represented by the number of the run or of the debug session it belongs to;
  \<open>launched\<close> counts the calls of \<^verbatim>\<open>launchStateMachine\<close> and \<open>debugSessions\<close>
  the calls of \<^verbatim>\<open>executeDeepDebug\<close>.
\<close>

record Agent =
  state :: CodeGenState
  generationPromise :: "nat option"
  deepDebugPromise :: "nat option"
  deepDebugConversationId :: "string option"
  pendingUserImages :: "string list"
  launched :: nat
  debugSessions :: nat
  broadcasts :: "WebSocketMessage list"
  registry :: AppRow
  sandboxProjectName :: string

definition broadcast :: "WebSocketMessage \<Rightarrow> Agent \<Rightarrow> Agent" where
  "broadcast msg ag = ag\<lparr>broadcasts := broadcasts ag @ [msg]\<rparr>"

definition setState :: "CodeGenState \<Rightarrow> Agent \<Rightarrow> Agent" where
  "setState s ag = ag\<lparr>state := s\<rparr>"

section \<open>Phase counter and single-flight entry\<close>

definition isCodeGenerating :: "Agent \<Rightarrow> bool" where
  "isCodeGenerating ag = (generationPromise ag \<noteq> None)"

definition isDeepDebugging :: "Agent \<Rightarrow> bool" where
  "isDeepDebugging ag = (deepDebugPromise ag \<noteq> None)"

definition MAX_PHASES :: int where
  "MAX_PHASES = 12"

definition getPhasesCounter :: "Agent \<Rightarrow> int" where
  "getPhasesCounter ag = phasesCounter (state ag)"

definition rechargePhasesCounter :: "int \<Rightarrow> Agent \<Rightarrow> Agent" where
  "rechargePhasesCounter max_phases ag =
     (if getPhasesCounter ag \<le> max_phases
      then setState ((state ag)\<lparr>phasesCounter := max_phases\<rparr>) ag
      else ag)"

definition decrementPhasesCounter :: "Agent \<Rightarrow> int \<times> Agent" where
  "decrementPhasesCounter ag =
     (let counter = getPhasesCounter ag - 1
      in (counter, setState ((state ag)\<lparr>phasesCounter := counter\<rparr>) ag))"

definition createNewIncompletePhase :: "PhaseConceptType \<Rightarrow> Agent \<Rightarrow> Agent" where
  "createNewIncompletePhase phaseConcept ag =
     setState ((state ag)\<lparr>generatedPhases :=
        generatedPhases (state ag) @
          [PhaseConceptType.extend phaseConcept (PhaseState.fields False)]\<rparr>) ag"

definition queueUserRequest :: "string \<Rightarrow> string list \<Rightarrow> Agent \<Rightarrow> Agent" where
  "queueUserRequest request images ag =
     (let ag1 = rechargePhasesCounter 3 ag;
          ag2 = setState ((state ag1)\<lparr>pendingUserInputs :=
                   pendingUserInputs (state ag1) @ [request]\<rparr>) ag1
      in if images \<noteq> []
         then ag2\<lparr>pendingUserImages := pendingUserImages ag2 @ images\<rparr>
         else ag2)"

definition fetchPendingUserRequests :: "Agent \<Rightarrow> string list \<times> Agent" where
  "fetchPendingUserRequests ag =
     (let inputs = pendingUserInputs (state ag)
      in if inputs \<noteq> []
         then (inputs, setState ((state ag)\<lparr>pendingUserInputs := []\<rparr>) ag)
         else (inputs, ag))"

text \<open>
  Results of operations that can throw. Both outcomes carry the agent, since the state
  written before an exception is thrown stays written.
\<close>

datatype Error = RateLimitExceededError | OtherError string

datatype 'a Outcome = Returned 'a Agent | Thrown Error Agent

text \<open>
  The reply of an external service call (registry, sandbox): a boolean, or an exception.
\<close>

datatype ServiceReply = Replied bool | Threw

text \<open>
  \<^verbatim>\<open>launchStateMachine\<close> runs in three parts. The first is synchronous and runs
  inside \<^verbatim>\<open>generateAllFiles\<close>, up to the first \<^verbatim>\<open>await\<close>.
\<close>

definition launchStateMachine_start :: "Agent \<Rightarrow> Agent" where
  "launchStateMachine_start ag = broadcast GENERATION_STARTED ag"

text \<open>
  The second part runs once the template details are there and ends at the entry of the
  state machine loop. It picks the state and the phase the loop starts with and stores
  the review cycles. The result is the local variables \<^verbatim>\<open>currentDevState\<close> and
  \<^verbatim>\<open>phaseConcept\<close> at loop entry, and the agent. A phase taken from
  \<^verbatim>\<open>generatedPhases\<close> is a \<^verbatim>\<open>PhaseState\<close> used as a \<^verbatim>\<open>PhaseConceptType\<close>.
\<close>

definition launchStateMachine_entry ::
    "int \<Rightarrow> Agent \<Rightarrow> CurrentDevState \<times> PhaseConceptType option \<times> Agent" where
  "launchStateMachine_entry cycles ag =
     (let phases = generatedPhases (state ag);
          incompletedPhases = filter (\<lambda>phase. \<not> completed phase) phases;
          (st, phaseConcept, ag1) =
            (if length incompletedPhases > 0
             then (PHASE_IMPLEMENTING,
                   Some (PhaseConceptType.truncate
                           (incompletedPhases ! (length incompletedPhases - 1))),
                   ag)
             else if length phases > 0
             then (PHASE_GENERATING, None, ag)
             else (PHASE_IMPLEMENTING,
                   Some (initialPhase (blueprint (state ag))),
                   createNewIncompletePhase (initialPhase (blueprint (state ag))) ag))
      in (st, phaseConcept, setState ((state ag1)\<lparr>reviewCycles := Some cycles\<rparr>) ag1))"

text \<open>
  Modelled from the spec: \<^verbatim>\<open>AppService.updateApp\<close>, the write to the application
  registry, which is an external collaborator. A call that replies \<^verbatim>\<open>true\<close> has
  written the row; a call that replies \<^verbatim>\<open>false\<close> or throws has not.
\<close>

definition updateApp :: "(AppRow \<Rightarrow> AppRow) \<Rightarrow> ServiceReply \<Rightarrow> Agent \<Rightarrow> Agent" where
  "updateApp upd reply ag =
     (case reply of
        Replied True \<Rightarrow> ag\<lparr>registry := upd (registry ag)\<rparr>
      | Replied False \<Rightarrow> ag
      | Threw \<Rightarrow> ag)"

text \<open>
  The third part is the \<^verbatim>\<open>finally\<close> block at the end of the run. An exception of
  the registry write leaves the block, so the promise is not cleared then.
\<close>

definition launchStateMachine_finally :: "ServiceReply \<Rightarrow> Agent \<Rightarrow> Agent" where
  "launchStateMachine_finally reply ag =
     (let ag1 = updateApp (\<lambda>row. row\<lparr>appStatus := ''completed''\<rparr>) reply ag
      in case reply of
           Threw \<Rightarrow> ag1
         | Replied ok \<Rightarrow> broadcast GENERATION_COMPLETE (ag1\<lparr>generationPromise := None\<rparr>))"

text \<open>
  The result of an \<^verbatim>\<open>async\<close> call as its caller sees it when the call hands
  control back: the promise is settled without waiting for a run, or it settles only
  when the run with the given number completes.
\<close>

datatype Awaited = ResolvesNow | AwaitsRun nat

text \<open>\<^verbatim>\<open>generateAllFiles\<close>: the two guards, then the launch.\<close>

definition generateAllFiles :: "int \<Rightarrow> Agent \<Rightarrow> Awaited \<times> Agent" where
  "generateAllFiles cycles ag =
     (if mvpGenerated (state ag) \<and> length (pendingUserInputs (state ag)) = 0
      then (ResolvesNow, ag)
      else if isCodeGenerating ag
      then (ResolvesNow, ag)
      else (let run = launched ag;
                ag1 = launchStateMachine_start (ag\<lparr>launched := Suc (launched ag)\<rparr>)
            in (AwaitsRun run, ag1\<lparr>generationPromise := Some run\<rparr>)))"

text \<open>\<^verbatim>\<open>waitForGeneration\<close>: waits for the stored promise, if there is one.\<close>

definition waitForGeneration :: "Agent \<Rightarrow> Awaited" where
  "waitForGeneration ag =
     (case generationPromise ag of Some run \<Rightarrow> AwaitsRun run | None \<Rightarrow> ResolvesNow)"

section \<open>The phase states of the state machine\<close>

record StaticAnalysisResponse =
  success :: bool
  lintIssues :: "string list"
  typecheckIssues :: "string list"

record AllIssues =
  runtimeErrors :: "string list"
  staticAnalysis :: StaticAnalysisResponse

record UserContext =
  suggestions :: "string list"
  images :: "string list"

record PhaseExecutionResult =
  resultDevState :: CurrentDevState
  result :: "PhaseConceptType option"
  resultStaticAnalysis :: "StaticAnalysisResponse option"
  resultUserContext :: "UserContext option"

text \<open>
  The operations the state machine awaits: inference, sandbox and git work. Each one
  may throw, and the agent may have changed when it returns (it changes the state
  itself, and other requests are served while it is awaited), so each takes the agent
  and returns it.
\<close>

record Operations =
  fetchRuntimeErrors :: "bool \<Rightarrow> Agent \<Rightarrow> (string list) Outcome"
  fetchAllIssues :: "bool \<Rightarrow> Agent \<Rightarrow> AllIssues Outcome"
  generateNextPhase :: "AllIssues \<Rightarrow> UserContext option \<Rightarrow> Agent \<Rightarrow> (PhaseConceptType option) Outcome"
  implementPhase :: "PhaseConceptType \<Rightarrow> AllIssues \<Rightarrow> UserContext option \<Rightarrow> Agent \<Rightarrow> unit Outcome"

definition broadcastError :: "string \<Rightarrow> Error \<Rightarrow> Agent \<Rightarrow> Agent" where
  "broadcastError context err ag =
     broadcast (ERROR (context @ '': '' @
        (case err of OtherError msg \<Rightarrow> msg | RateLimitExceededError \<Rightarrow> ''Rate limit exceeded''))) ag"

definition executePhaseGeneration :: "Operations \<Rightarrow> Agent \<Rightarrow> PhaseExecutionResult Outcome" where
  "executePhaseGeneration ops ag =
     (let failed = (\<lambda>err agE.
            case err of
              RateLimitExceededError \<Rightarrow> Thrown err agE
            | OtherError msg \<Rightarrow>
                Returned \<lparr>resultDevState = IDLE, result = None,
                          resultStaticAnalysis = None, resultUserContext = None\<rparr>
                  (broadcastError ''Error generating phase'' err agE))
      in case fetchAllIssues ops False ag of
           Thrown err agE \<Rightarrow> failed err agE
         | Returned currentIssues ag1 \<Rightarrow>
             (let (pending, ag2) = fetchPendingUserRequests ag1;
                  uc = (if length pending > 0
                        then Some \<lparr>suggestions = pending, images = pendingUserImages ag2\<rparr>
                        else None);
                  ag3 = (case uc of
                           Some c \<Rightarrow>
                             if length (suggestions c) > 0 \<and> length (images c) > 0
                             then ag2\<lparr>pendingUserImages := []\<rparr> else ag2
                         | None \<Rightarrow> ag2)
              in case generateNextPhase ops currentIssues uc ag3 of
                   Thrown err agE \<Rightarrow> failed err agE
                 | Returned None ag4 \<Rightarrow>
                     Returned \<lparr>resultDevState = FINALIZING, result = None,
                               resultStaticAnalysis = None, resultUserContext = None\<rparr> ag4
                 | Returned (Some nextPhase) ag4 \<Rightarrow>
                     Returned \<lparr>resultDevState = PHASE_IMPLEMENTING, result = Some nextPhase,
                               resultStaticAnalysis = Some (staticAnalysis currentIssues),
                               resultUserContext = uc\<rparr>
                       (setState ((state ag4)\<lparr>currentPhase := Some nextPhase\<rparr>) ag4)))"

text \<open>
  The head of \<^verbatim>\<open>executePhaseImplementation\<close>: the phase to implement is the argument,
  else the stored current phase, else the result of a phase generation.
\<close>

definition resolvePhaseConcept ::
    "Operations \<Rightarrow> PhaseConceptType option \<Rightarrow> Agent \<Rightarrow> (PhaseConceptType option) Outcome" where
  "resolvePhaseConcept ops phaseConcept ag =
     (case phaseConcept of
        Some p \<Rightarrow> Returned (Some p) ag
      | None \<Rightarrow>
          (case currentPhase (state ag) of
             Some p \<Rightarrow> Returned (Some p) ag
           | None \<Rightarrow>
               (case executePhaseGeneration ops ag of
                  Thrown err agE \<Rightarrow> Thrown err agE
                | Returned results ag1 \<Rightarrow> Returned (result results) ag1)))"

text \<open>The issues handed to the implementation.\<close>

definition implementationIssues ::
    "Operations \<Rightarrow> StaticAnalysisResponse option \<Rightarrow> Agent \<Rightarrow> AllIssues Outcome" where
  "implementationIssues ops sa ag =
     (if sandboxInstanceId (state ag) \<noteq> None \<and> sandboxInstanceId (state ag) \<noteq> Some []
      then (case sa of
              Some cached \<Rightarrow>
                (case fetchRuntimeErrors ops True ag of
                   Thrown err agE \<Rightarrow> Thrown err agE
                 | Returned errs ag1 \<Rightarrow>
                     Returned \<lparr>runtimeErrors = errs, staticAnalysis = cached\<rparr> ag1)
            | None \<Rightarrow> fetchAllIssues ops True ag)
      else Returned \<lparr>runtimeErrors = [],
                     staticAnalysis = \<lparr>success = True, lintIssues = [], typecheckIssues = []\<rparr>\<rparr> ag)"

text \<open>
  \<^verbatim>\<open>executePhaseImplementation\<close>. The result is the pair of the next state and the
  static analysis passed on. An exception inside the \<^verbatim>\<open>try\<close> is rethrown when it
  is a rate limit error and gives \<open>IDLE\<close> otherwise.
\<close>

definition executePhaseImplementation ::
    "Operations \<Rightarrow> PhaseConceptType option \<Rightarrow> StaticAnalysisResponse option \<Rightarrow>
     UserContext option \<Rightarrow> Agent \<Rightarrow> (CurrentDevState \<times> StaticAnalysisResponse option) Outcome" where
  "executePhaseImplementation ops phaseConcept sa uc ag =
     (let failed = (\<lambda>err agE.
            case err of
              RateLimitExceededError \<Rightarrow> Thrown err agE
            | OtherError msg \<Rightarrow> Returned (IDLE, None) agE)
      in case resolvePhaseConcept ops phaseConcept ag of
           Thrown err agE \<Rightarrow> failed err agE
         | Returned None ag1 \<Rightarrow> Returned (FINALIZING, None) ag1
         | Returned (Some p) ag1 \<Rightarrow>
             (let ag2 = setState ((state ag1)\<lparr>currentPhase := None\<rparr>) ag1
              in case implementationIssues ops sa ag2 of
                   Thrown err agE \<Rightarrow> failed err agE
                 | Returned currentIssues ag3 \<Rightarrow>
                     (case implementPhase ops p currentIssues uc ag3 of
                        Thrown err agE \<Rightarrow> failed err agE
                      | Returned u ag4 \<Rightarrow>
                          (let (counter, ag5) = decrementPhasesCounter ag4
                           in if (lastPhase p \<or> counter \<le> 0) \<and>
                                 length (pendingUserInputs (state ag5)) = 0
                              then Returned (FINALIZING, sa) ag5
                              else Returned (PHASE_GENERATING, sa) ag5))))"

text \<open>
  The initial state of a new agent (\<^verbatim>\<open>initialState\<close>) and the agent object right
  after construction. The empty blueprint object has no fields; reading them gives
  empty values here.
\<close>

definition emptyPhase :: PhaseConceptType where
  "emptyPhase = \<lparr>name = [], description = [], files = [], lastPhase = False\<rparr>"

definition initialState :: CodeGenState where
  "initialState =
     \<lparr>blueprint = \<lparr>title = [], projectName = [], initialPhase = emptyPhase\<rparr>,
      projectName = [],
      query = [],
      generatedFilesMap = Map.empty,
      generatedPhases = [],
      templateName = [],
      sandboxInstanceId = None,
      shouldBeGenerating = False,
      mvpGenerated = False,
      reviewingInitiated = False,
      phasesCounter = MAX_PHASES,
      pendingUserInputs = [],
      currentDevState = IDLE,
      reviewCycles = None,
      currentPhase = None,
      lastDeepDebugTranscript = None\<rparr>"

definition newAgent :: Agent where
  "newAgent =
     \<lparr>state = initialState,
      generationPromise = None,
      deepDebugPromise = None,
      deepDebugConversationId = None,
      pendingUserImages = [],
      launched = 0,
      debugSessions = 0,
      broadcasts = [],
      registry = \<lparr>appTitle = [], appStatus = []\<rparr>,
      sandboxProjectName = []\<rparr>"

section \<open>Renaming the project\<close>

text \<open>
  The test \<^verbatim>\<open>/^[a-z0-9-_]{3,50}$/.test(newName)\<close>: between 3 and 50 characters, each
  a lower case letter, a digit, a hyphen or an underscore.
\<close>

definition slugChar :: "char \<Rightarrow> bool" where
  "slugChar c = (c \<in> set ''abcdefghijklmnopqrstuvwxyz0123456789-_'')"

definition testProjectName :: "string \<Rightarrow> bool" where
  "testProjectName newName =
     (3 \<le> length newName \<and> length newName \<le> 50 \<and> list_all slugChar newName)"

text \<open>
  Modelled from the spec: \<^verbatim>\<open>updateProjectName\<close> of the sandbox service client, an
  external collaborator. A call that replies \<^verbatim>\<open>true\<close> has renamed the sandbox
  project; a call that replies \<^verbatim>\<open>false\<close> or throws has not.
\<close>

definition sandboxUpdateProjectName :: "string \<Rightarrow> ServiceReply \<Rightarrow> Agent \<Rightarrow> Agent" where
  "sandboxUpdateProjectName newName reply ag =
     (case reply of
        Replied True \<Rightarrow> ag\<lparr>sandboxProjectName := newName\<rparr>
      | Replied False \<Rightarrow> ag
      | Threw \<Rightarrow> ag)"

text \<open>
  While a service call is awaited the agent serves other requests (a queued user
  request, another rename, a blueprint update), and the write of the service lands at
  some moment of the wait. An interleaving gives what the other requests do to the agent
  before the write of the service and after it.
\<close>

record Interleaving =
  beforeService :: "Agent \<Rightarrow> Agent"
  afterService :: "Agent \<Rightarrow> Agent"

definition noOtherRequests :: Interleaving where
  "noOtherRequests = \<lparr>beforeService = (\<lambda>ag. ag), afterService = (\<lambda>ag. ag)\<rparr>"

text \<open>
  \<^verbatim>\<open>updateProjectName\<close>. The replies of the sandbox service and of the registry are
  arguments, and so is what other requests do while each of the two calls is awaited.
  The blueprint is written before the first \<^verbatim>\<open>await\<close>; after an \<^verbatim>\<open>await\<close> the
  code goes on with the agent as it then is. The result is the boolean the call
  returns, and the agent.
\<close>

definition updateProjectName ::
    "string \<Rightarrow> ServiceReply \<Rightarrow> Interleaving \<Rightarrow> ServiceReply \<Rightarrow> Interleaving \<Rightarrow> Agent \<Rightarrow>
     bool \<times> Agent" where
  "updateProjectName newName sandboxReply duringSandbox dbReply duringRegistry ag =
     (let valid = testProjectName newName
      in if \<not> valid then (False, ag)
         else
           (let updatedBlueprint = (blueprint (state ag))\<lparr>Blueprint.projectName := newName\<rparr>;
                ag1 = setState ((state ag)\<lparr>blueprint := updatedBlueprint\<rparr>) ag;
                (ok1, ag2) =
                  (if sandboxInstanceId (state ag1) \<noteq> None \<and> sandboxInstanceId (state ag1) \<noteq> Some []
                   then ((case sandboxReply of Replied b \<Rightarrow> b | Threw \<Rightarrow> False),
                         afterService duringSandbox
                           (sandboxUpdateProjectName newName sandboxReply
                              (beforeService duringSandbox ag1)))
                   else (True, ag1));
                (ok2, ag3) =
                  ((case dbReply of Replied dbOk \<Rightarrow> ok1 \<and> dbOk | Threw \<Rightarrow> False),
                   afterService duringRegistry
                     (updateApp (\<lambda>row. row\<lparr>appTitle := newName\<rparr>) dbReply
                        (beforeService duringRegistry ag2)));
                ag4 = broadcast (PROJECT_NAME_UPDATED newName) ag3
            in (ok2, ag4)))"

text \<open>
  A request leaves the names alone when it changes none of the four names of the
  project: the project name of the blueprint, the project name of the state, the title
  of the registry row and the name of the sandbox project.
\<close>

definition leavesNamesAlone :: "(Agent \<Rightarrow> Agent) \<Rightarrow> bool" where
  "leavesNamesAlone request =
     (\<forall>ag. Blueprint.projectName (blueprint (state (request ag))) =
             Blueprint.projectName (blueprint (state ag)) \<and>
           projectName (state (request ag)) = projectName (state ag) \<and>
           appTitle (registry (request ag)) = appTitle (registry ag) \<and>
           sandboxProjectName (request ag) = sandboxProjectName ag)"

definition namesLeftAlone :: "Interleaving \<Rightarrow> bool" where
  "namesLeftAlone others =
     (leavesNamesAlone (beforeService others) \<and> leavesNamesAlone (afterService others))"

section \<open>The deep debug tool\<close>

text \<open>
  The outcome of the body of \<^verbatim>\<open>executeDeepDebug\<close>, which is a debugger session
  (an inference run): the transcript, an exception thrown before the first
  \<^verbatim>\<open>await\<close> (while the operation options and the file index are made), or an
  exception thrown later (by the fetch of the runtime errors or by
  \<^verbatim>\<open>DeepCodeDebugger.run\<close>), each with its text. Here the outcome is a function of
  the issue and of the previous transcript.
\<close>

datatype DebugRun = DebugReturns string | DebugThrowsAtStart string | DebugThrows string

datatype DeepDebugResult = DebugSuccess string | DebugFailure string

text \<open>
  \<^verbatim>\<open>executeDeepDebug\<close>, from the call to the settled promise. The body is an
  \<^verbatim>\<open>async\<close> function that is called at once; its promise is stored in
  \<^verbatim>\<open>deepDebugPromise\<close> when the call hands control back, that is at the first
  \<^verbatim>\<open>await\<close> of the body, and the \<^verbatim>\<open>finally\<close> block of the body clears the
  stored promise and the conversation id. When the body throws before its first
  \<^verbatim>\<open>await\<close>, the \<^verbatim>\<open>finally\<close> block has run before the promise is stored, so the
  promise stays stored.
\<close>

definition executeDeepDebug ::
    "(string \<Rightarrow> string option \<Rightarrow> DebugRun) \<Rightarrow> string \<Rightarrow> Agent \<Rightarrow> DeepDebugResult \<times> Agent" where
  "executeDeepDebug dbg issue ag =
     (let previousTranscript = lastDeepDebugTranscript (state ag);
          session = debugSessions ag;
          ag0 = ag\<lparr>debugSessions := Suc session\<rparr>
      in case dbg issue previousTranscript of
           DebugThrowsAtStart e \<Rightarrow>
             (DebugFailure (''Deep debugger failed: '' @ e),
              (ag0\<lparr>deepDebugPromise := None, deepDebugConversationId := None\<rparr>)
                \<lparr>deepDebugPromise := Some session\<rparr>)
         | DebugReturns out \<Rightarrow>
             (DebugSuccess out,
              (setState ((state ag0)\<lparr>lastDeepDebugTranscript := Some out\<rparr>)
                 (ag0\<lparr>deepDebugPromise := Some session\<rparr>))
                \<lparr>deepDebugPromise := None, deepDebugConversationId := None\<rparr>)
         | DebugThrows e \<Rightarrow>
             (DebugFailure (''Deep debugger failed: '' @ e),
              (ag0\<lparr>deepDebugPromise := Some session\<rparr>)
                \<lparr>deepDebugPromise := None, deepDebugConversationId := None\<rparr>))"

text \<open>The tool result: \<^verbatim>\<open>{ transcript: string } | { error: string }\<close>.\<close>

datatype DeepDebugToolResult = transcript string | error string

definition CALL_LIMIT_EXCEEDED :: string where
  "CALL_LIMIT_EXCEEDED = ''CALL_LIMIT_EXCEEDED: You are only allowed to make a single deep_debug call per conversation turn. Ask user for permission before trying again.''"

definition GENERATION_IN_PROGRESS :: string where
  "GENERATION_IN_PROGRESS = ''GENERATION_IN_PROGRESS: Code generation is currently running. Use wait_for_generation tool, then retry deep_debug.''"

definition DEBUG_IN_PROGRESS :: string where
  "DEBUG_IN_PROGRESS = ''DEBUG_IN_PROGRESS: Another debug session is currently running. Wait for it to finish, and if it doesn't, solve the issue, Use wait_for_debug tool, then retry deep_debug.''"

text \<open>
  The tool object made by \<^verbatim>\<open>createDeepDebuggerTool\<close>: its only state is the
  variable \<^verbatim>\<open>callCount\<close> of the closure, which starts at 0 each time
  \<^verbatim>\<open>buildTools\<close> makes the tools of a conversation turn.
\<close>

record DeepDebuggerTool =
  callCount :: nat

definition createDeepDebuggerTool :: DeepDebuggerTool where
  "createDeepDebuggerTool = \<lparr>callCount = 0\<rparr>"

text \<open>The \<^verbatim>\<open>implementation\<close> of the tool.\<close>

definition deep_debug ::
    "(string \<Rightarrow> string option \<Rightarrow> DebugRun) \<Rightarrow> string \<Rightarrow> DeepDebuggerTool \<times> Agent \<Rightarrow>
     DeepDebugToolResult \<times> DeepDebuggerTool \<times> Agent" where
  "deep_debug dbg issue toolAndAgent =
     (let (tool, ag) = toolAndAgent
      in if callCount tool > 0
         then (error CALL_LIMIT_EXCEEDED, tool, ag)
         else
           (let tool1 = tool\<lparr>callCount := callCount tool + 1\<rparr>
            in if isCodeGenerating ag
               then (error GENERATION_IN_PROGRESS, tool1, ag)
               else if isDeepDebugging ag
               then (error DEBUG_IN_PROGRESS, tool1, ag)
               else
                 (case executeDeepDebug dbg issue ag of
                    (DebugSuccess out, ag1) \<Rightarrow> (transcript out, tool1, ag1)
                  | (DebugFailure e, ag1) \<Rightarrow> (error e, tool1, ag1))))"

section \<open>Loop detection of the debugger session\<close>

record ToolCallRecord =
  toolName :: string
  args :: string
  timestamp :: int

record LoopDetectionState =
  recentCalls :: "ToolCallRecord list"
  repetitionWarnings :: nat

text \<open>
  The debugger object: its loop detection state and the conversation it keeps for the
  model.
\<close>

record DeepCodeDebugger =
  loopDetection :: LoopDetectionState
  history :: "Message list"

text \<open>
  Modelled from the spec: \<^verbatim>\<open>save\<close> of the base class \<^verbatim>\<open>Assistant\<close>, which is not
  part of the sources. It adds the messages to the conversation of the model.
\<close>

definition save :: "Message list \<Rightarrow> DeepCodeDebugger \<Rightarrow> DeepCodeDebugger" where
  "save msgs d = d\<lparr>history := history d @ msgs\<rparr>"

definition createUserMessage :: "string \<Rightarrow> Message" where
  "createUserMessage msg = \<lparr>role = ''user'', content = Text msg\<rparr>"

definition newDeepCodeDebugger :: DeepCodeDebugger where
  "newDeepCodeDebugger =
     \<lparr>loopDetection = \<lparr>recentCalls = [], repetitionWarnings = 0\<rparr>, history = []\<rparr>"

text \<open>
  \<^verbatim>\<open>detectRepetition\<close>. The arguments are given in their JSON text, the clock
  reading \<^verbatim>\<open>Date.now()\<close> is an argument.
\<close>

definition detectRepetition ::
    "string \<Rightarrow> string \<Rightarrow> int \<Rightarrow> DeepCodeDebugger \<Rightarrow> bool \<times> DeepCodeDebugger" where
  "detectRepetition tool argsStr now d =
     (let recent = filter (\<lambda>call. now - timestamp call < 600000)
                     (recentCalls (loopDetection d));
          matchingCalls = filter (\<lambda>call. toolName call = tool \<and> args call = argsStr) recent;
          recorded = recent @ [\<lparr>toolName = tool, args = argsStr, timestamp = now\<rparr>]
      in (length matchingCalls \<ge> 2,
          d\<lparr>loopDetection := (loopDetection d)\<lparr>recentCalls := recorded\<rparr>\<rparr>))"

text \<open>
  The text of the warning. The warning sign and its variation selector are written as
  the six bytes of their UTF-8 encoding.
\<close>

definition warningMessage :: "string \<Rightarrow> nat \<Rightarrow> string" where
  "warningMessage tool n =
     ''\<newline>'' @ [CHR 0xE2, CHR 0x9A, CHR 0xA0, CHR 0xEF, CHR 0xB8, CHR 0x8F] @
     '' CRITICAL: REPETITION DETECTED\<newline>\<newline>'' @
     ''You just attempted to execute '' @ [CHR 0x22] @ tool @ [CHR 0x22] @
     '' with identical arguments for the '' @ natToString n @ ''th time.\<newline>\<newline>'' @
     ''RECOMMENDED ACTIONS:\<newline>'' @
     ''1. If your task is complete, state '' @ [CHR 0x22] @ ''TASK_COMPLETE: [summary]'' @ [CHR 0x22] @
     '' and STOP. Once you write 'TASK_COMPLETE' or 'TASK_STUCK', You shall not make any more tool/function calls.\<newline>'' @
     ''2. If you observe you have already declared 'TASK_COMPLETE' or 'TASK_STUCK' in the past, Halt immediately. It might be that you are stuck in a loop.\<newline>'' @
     ''3. If not complete, try a DIFFERENT approach:\<newline>'' @
     ''   - Use different tools\<newline>'' @
     ''   - Use different arguments  \<newline>'' @
     ''   - Read different files\<newline>'' @
     ''   - Apply a different fix strategy\<newline>\<newline>'' @
     ''DO NOT repeat the same action. The definition of insanity is doing the same thing expecting different results.\<newline>\<newline>'' @
     ''If you're genuinely stuck after trying 3 different approaches, honestly report: '' @
     [CHR 0x22] @ ''TASK_STUCK: [reason]'' @ [CHR 0x22]"

definition injectLoopWarning :: "string \<Rightarrow> DeepCodeDebugger \<Rightarrow> DeepCodeDebugger" where
  "injectLoopWarning tool d =
     (let d1 = d\<lparr>loopDetection := (loopDetection d)
                  \<lparr>repetitionWarnings := repetitionWarnings (loopDetection d) + 1\<rparr>\<rparr>
      in save [createUserMessage
                 (warningMessage tool (repetitionWarnings (loopDetection d1)))] d1)"

text \<open>
  The implementation that \<^verbatim>\<open>run\<close> wraps around each debug tool. The implementation
  of the wrapped tool is a function on what the tool acts on (sandbox, files, git); it
  is applied to the arguments whatever the loop detection has found.
\<close>

definition wrappedImplementation ::
    "string \<Rightarrow> (string \<Rightarrow> 'w \<Rightarrow> 'r \<times> 'w) \<Rightarrow> string \<Rightarrow> int \<Rightarrow>
     DeepCodeDebugger \<times> 'w \<Rightarrow> 'r \<times> DeepCodeDebugger \<times> 'w" where
  "wrappedImplementation tool implementation argsStr now dw =
     (let (d, w) = dw;
          (repeated, d1) = detectRepetition tool argsStr now d;
          d2 = (if repeated then injectLoopWarning tool d1 else d1);
          (res, w1) = implementation argsStr w
      in (res, d2, w1))"

section \<open>The file manager\<close>

text \<open>
  Modelled from the spec: the git store (\<^verbatim>\<open>GitVersionControl\<close>), which is not part of
  the sources. It holds the files at HEAD and the staged files, by path. Every call is
  recorded in \<open>gitCalls\<close>, also one that throws. The store may report a commit to the
  callback registered by the file manager (\<open>notifiesOnCommit\<close>).
\<close>

datatype GitCall = Commit "FileState list" string | Stage "FileState list"

datatype GitReply = GitOk | GitThrows

record GitStore =
  head :: "string \<rightharpoonup> string"
  staged :: "string \<rightharpoonup> string"
  gitCalls :: "GitCall list"
  notifiesOnCommit :: bool

text \<open>Modelled from the spec: writing files into a tree of the git store, in order.\<close>

definition writeFiles :: "FileState list \<Rightarrow> (string \<rightharpoonup> string) \<Rightarrow> (string \<rightharpoonup> string)" where
  "writeFiles fs tree = foldl (\<lambda>t f. t(filePath f \<mapsto> fileContents f)) tree fs"

text \<open>
  Modelled from the spec: \<^verbatim>\<open>stage(files)\<close> of the git store stages the files and
  makes no commit. A call that throws changes nothing.
\<close>

definition gitStage :: "FileState list \<Rightarrow> GitReply \<Rightarrow> GitStore \<Rightarrow> GitStore" where
  "gitStage fs reply g =
     (let g1 = g\<lparr>gitCalls := gitCalls g @ [Stage fs]\<rparr>
      in case reply of
           GitOk \<Rightarrow> g1\<lparr>staged := writeFiles fs (staged g1)\<rparr>
         | GitThrows \<Rightarrow> g1)"

text \<open>
  Modelled from the spec: \<^verbatim>\<open>commit(files, message)\<close> of the git store stages the
  files and moves what is staged into HEAD. A call that throws changes nothing.
\<close>

definition gitCommit :: "FileState list \<Rightarrow> string \<Rightarrow> GitReply \<Rightarrow> GitStore \<Rightarrow> GitStore" where
  "gitCommit fs message reply g =
     (let g1 = g\<lparr>gitCalls := gitCalls g @ [Commit fs message]\<rparr>
      in case reply of
           GitOk \<Rightarrow> g1\<lparr>head := head g1 ++ writeFiles fs (staged g1), staged := Map.empty\<rparr>
         | GitThrows \<Rightarrow> g1)"

text \<open>
  The file manager: the state behind its state manager, the files of the template
  (\<^verbatim>\<open>templateDetails.allFiles\<close>; \<open>None\<close> when the template details cannot be had and
  \<^verbatim>\<open>getTemplateDetailsFunc\<close> throws), and the git store.
\<close>

record FileManager =
  managedState :: CodeGenState
  templateAllFiles :: "(string \<rightharpoonup> string) option"
  git :: GitStore

definition getGeneratedFile :: "FileManager \<Rightarrow> string \<Rightarrow> FileState option" where
  "getGeneratedFile fm p = generatedFilesMap (managedState fm) p"

definition getTemplateFile :: "FileManager \<Rightarrow> string \<Rightarrow> FileOutputType option" where
  "getTemplateFile fm p =
     (case templateAllFiles fm of
        None \<Rightarrow> None
      | Some allFiles \<Rightarrow>
          (case allFiles p of
             None \<Rightarrow> None
           | Some contents \<Rightarrow>
               if contents = [] then None
               else Some \<lparr>filePath = p, fileContents = contents,
                          filePurpose = ''Bootstrapped template file''\<rparr>))"

definition getFile :: "FileManager \<Rightarrow> string \<Rightarrow> FileOutputType option" where
  "getFile fm p =
     (case getGeneratedFile fm p of
        Some generatedFile \<Rightarrow> Some (FileOutputType.truncate generatedFile)
      | None \<Rightarrow> getTemplateFile fm p)"

text \<open>
  \<^verbatim>\<open>syncGeneratedFilesMapFromGit\<close>, the callback: the map is rebuilt from the files at
  HEAD, keeping the purpose of a file that was in the map.
\<close>

definition syncGeneratedFilesMapFromGit :: "FileManager \<Rightarrow> FileManager" where
  "syncGeneratedFilesMapFromGit fm =
     (let oldMap = generatedFilesMap (managedState fm);
          newMap = (\<lambda>p. case head (git fm) p of
                      None \<Rightarrow> None
                    | Some contents \<Rightarrow>
                        Some \<lparr>filePath = p, fileContents = contents,
                              filePurpose =
                                (case oldMap p of
                                   Some existing \<Rightarrow>
                                     if filePurpose existing \<noteq> [] then filePurpose existing
                                     else ''Generated file''
                                 | None \<Rightarrow> ''Generated file''),
                              lastDiff = []\<rparr>)
      in fm\<lparr>managedState := (managedState fm)\<lparr>generatedFilesMap := newMap\<rparr>\<rparr>)"

text \<open>
  The body of the loop of \<^verbatim>\<open>saveGeneratedFiles\<close>: the file state made for one
  file, given the local copy of the map. \<^verbatim>\<open>Diff.createPatch\<close> of the diff library
  is an argument; it gives \<open>None\<close> when it throws. The fields \<^verbatim>\<open>lasthash\<close>,
  \<^verbatim>\<open>lastmodified\<close> and \<^verbatim>\<open>unmerged\<close> that the code adds to a file state are
  not fields of \<^verbatim>\<open>FileState\<close> and are left out.
\<close>

definition newFileState ::
    "(string \<Rightarrow> string \<Rightarrow> string \<Rightarrow> string option) \<Rightarrow> FileManager \<Rightarrow>
     (string \<rightharpoonup> FileState) \<Rightarrow> FileOutputType \<Rightarrow> FileState" where
  "newFileState createPatch fm filesMap file =
     (let oldFile = filesMap (filePath file);
          oldFileContents =
            (case oldFile of
               Some old \<Rightarrow> fileContents old
             | None \<Rightarrow>
                 (case getFile fm (filePath file) of
                    Some f \<Rightarrow> fileContents f
                  | None \<Rightarrow> []));
          diff =
            (if oldFileContents \<noteq> fileContents file
             then (case createPatch (filePath file) oldFileContents (fileContents file) of
                     Some patch \<Rightarrow> patch
                   | None \<Rightarrow> [])
             else [])
      in FileOutputType.extend file (FileState.fields diff))"

text \<open>The loop, on the local copy of the map and the list of file states built so far.\<close>

fun saveLoop ::
    "(string \<Rightarrow> string \<Rightarrow> string \<Rightarrow> string option) \<Rightarrow> FileManager \<Rightarrow> FileOutputType list \<Rightarrow>
     (string \<rightharpoonup> FileState) \<times> FileState list \<Rightarrow> (string \<rightharpoonup> FileState) \<times> FileState list" where
  "saveLoop createPatch fm [] (filesMap, fileStates) = (filesMap, fileStates)"
| "saveLoop createPatch fm (file # rest) (filesMap, fileStates) =
     saveLoop createPatch fm rest
       (filesMap(filePath file \<mapsto> newFileState createPatch fm filesMap file),
        fileStates @ [newFileState createPatch fm filesMap file])"

text \<open>
  \<^verbatim>\<open>saveGeneratedFiles\<close>. The reply of the git store to the one call that may be
  made is an argument. An exception of the git call is caught and logged.
\<close>

definition saveGeneratedFiles ::
    "(string \<Rightarrow> string \<Rightarrow> string \<Rightarrow> string option) \<Rightarrow> FileOutputType list \<Rightarrow> string option \<Rightarrow>
     GitReply \<Rightarrow> FileManager \<Rightarrow> FileState list \<times> FileManager" where
  "saveGeneratedFiles createPatch fs commitMessage reply fm =
     (let (filesMap, fileStates) =
            saveLoop createPatch fm fs (generatedFilesMap (managedState fm), []);
          fm1 = fm\<lparr>managedState := (managedState fm)\<lparr>generatedFilesMap := filesMap\<rparr>\<rparr>;
          shouldCommit = (length fileStates > 0 \<and> list_ex (\<lambda>fileState. lastDiff fileState \<noteq> []) fileStates);
          fm2 =
            (if shouldCommit
             then (case commitMessage of
                     Some message \<Rightarrow>
                       if message \<noteq> []
                       then (let fm' = fm1\<lparr>git := gitCommit fileStates message reply (git fm1)\<rparr>
                             in if reply = GitOk \<and> notifiesOnCommit (git fm')
                                then syncGeneratedFilesMapFromGit fm' else fm')
                       else fm1\<lparr>git := gitStage fileStates reply (git fm1)\<rparr>
                   | None \<Rightarrow> fm1\<lparr>git := gitStage fileStates reply (git fm1)\<rparr>)
             else fm1)
      in (fileStates, fm2))"

text \<open>
  Two notions for the properties of the file manager. A list of files is consistent
  when files of the same path have the same contents (so it is when the paths are
  pairwise distinct). A map agrees with a list of files when it holds every file of the
  list, under its path and with its contents.
\<close>

definition agreesWith :: "(string \<rightharpoonup> FileState) \<Rightarrow> FileOutputType list \<Rightarrow> bool" where
  "agreesWith m fs = (\<forall>f \<in> set fs. \<exists>e. m (filePath f) = Some e \<and> fileContents e = fileContents f)"

definition consistentFiles :: "FileOutputType list \<Rightarrow> bool" where
  "consistentFiles fs = (\<forall>f \<in> set fs. \<forall>g \<in> set fs. filePath f = filePath g \<longrightarrow> fileContents f = fileContents g)"


section \<open>Concrete inputs\<close>

text \<open>
  The stored state of the resume scenario: a completed phase \<open>Setup\<close> and an incomplete
  phase \<open>API\<close>, with generation flagged as active.
\<close>

definition resumeAgent :: Agent where
  "resumeAgent = newAgent\<lparr>state := initialState\<lparr>shouldBeGenerating := True, generatedPhases :=
     [\<lparr>name = ''Setup'', description = [], files = [], lastPhase = False, completed = True\<rparr>,
      \<lparr>name = ''API'', description = [], files = [], lastPhase = False, completed = False\<rparr>]\<rparr>\<rparr>"

text \<open>Operations that succeed at once and leave the agent as it is.\<close>

definition quietOperations :: Operations where
  "quietOperations =
     \<lparr>fetchRuntimeErrors = (\<lambda>clear ag. Returned [] ag),
      fetchAllIssues = (\<lambda>reset ag. Returned \<lparr>runtimeErrors = [],
          staticAnalysis = \<lparr>success = True, lintIssues = [], typecheckIssues = []\<rparr>\<rparr> ag),
      generateNextPhase = (\<lambda>issues uc ag. Returned None ag),
      implementPhase = (\<lambda>p issues uc ag. Returned () ag)\<rparr>"

text \<open>
  A file manager with no generated file, no template and an empty git store that does
  not report commits.
\<close>

definition emptyFileManager :: FileManager where
  "emptyFileManager =
     \<lparr>managedState = initialState,
      templateAllFiles = None,
      git = \<lparr>head = Map.empty, staged = Map.empty, gitCalls = [], notifiesOnCommit = False\<rparr>\<rparr>"

text \<open>
  A stand-in for \<^verbatim>\<open>createPatch\<close> of the diff library, which is not part of the
  repository: the index line of the patch followed by the old and the new contents. It
  does not throw and its result is never empty, as a patch always has its header.
\<close>

definition headerPatch :: "string \<Rightarrow> string \<Rightarrow> string \<Rightarrow> string option" where
  "headerPatch p old new =
     Some (''Index: '' @ p @ ''\<newline>--- '' @ old @ ''\<newline>+++ '' @ new)"

text \<open>Lists of files to save: two files, one file, and one path given twice.\<close>

definition twoFiles :: "FileOutputType list" where
  "twoFiles =
     [\<lparr>filePath = ''src/App.tsx'', fileContents = ''v1'', filePurpose = ''app''\<rparr>,
      \<lparr>filePath = ''src/main.tsx'', fileContents = ''m1'', filePurpose = ''entry''\<rparr>]"

definition oneFile :: "FileOutputType list" where
  "oneFile = [\<lparr>filePath = ''src/App.tsx'', fileContents = ''v1'', filePurpose = ''app''\<rparr>]"

definition samePathTwice :: "FileOutputType list" where
  "samePathTwice =
     [\<lparr>filePath = ''src/App.tsx'', fileContents = ''v1'', filePurpose = ''app''\<rparr>,
      \<lparr>filePath = ''src/App.tsx'', fileContents = ''v2'', filePurpose = ''app''\<rparr>]"

text \<open>
  An agent whose project is named \<open>todo-app-k3x9\<close>, without a sandbox instance and with
  one.
\<close>

definition namedAgent :: Agent where
  "namedAgent = setState (initialState\<lparr>projectName := ''todo-app-k3x9''\<rparr>) newAgent"

definition deployedAgent :: Agent where
  "deployedAgent =
     setState (initialState\<lparr>projectName := ''todo-app-k3x9'',
                             sandboxInstanceId := Some ''sbx-1''\<rparr>) newAgent"

text \<open>A user request is queued while the sandbox call is awaited.\<close>

definition requestQueuedMeanwhile :: Interleaving where
  "requestQueuedMeanwhile =
     \<lparr>beforeService = queueUserRequest ''add a dark mode'' [], afterService = (\<lambda>ag. ag)\<rparr>"

section \<open>Properties\<close>

subsection \<open>Start state of a run\<close>

lemma last_filter_index:
  assumes "filter P xs \<noteq> []"
  shows "\<exists>i<length xs. last (filter P xs) = xs ! i \<and> P (xs ! i) \<and>
           (\<forall>j. i < j \<and> j < length xs \<longrightarrow> \<not> P (xs ! j))"
  using assms
proof (induction xs rule: rev_induct)
  case Nil
  then show ?case by simp
next
  case (snoc x xs)
  show ?case
  proof (cases "P x")
    case True
    then have "last (filter P (xs @ [x])) = (xs @ [x]) ! length xs \<and> P ((xs @ [x]) ! length xs)"
      by simp
    then show ?thesis
      by (intro exI[of _ "length xs"]) auto
  next
    case False
    with snoc.prems have ne: "filter P xs \<noteq> []" by simp
    from snoc.IH[OF ne] obtain i where i: "i < length xs" "last (filter P xs) = xs ! i" "P (xs ! i)"
      "\<forall>j. i < j \<and> j < length xs \<longrightarrow> \<not> P (xs ! j)" by blast
    have "\<forall>j. i < j \<and> j < length (xs @ [x]) \<longrightarrow> \<not> P ((xs @ [x]) ! j)"
    proof (intro allI impI)
      fix j assume j: "i < j \<and> j < length (xs @ [x])"
      show "\<not> P ((xs @ [x]) ! j)"
      proof (cases "j < length xs")
        case True
        with i(4) j show ?thesis by (simp add: nth_append)
      next
        case False
        with j have "j = length xs" by simp
        with \<open>\<not> P x\<close> show ?thesis by simp
      qed
    qed
    with i False show ?thesis
      by (intro exI[of _ i]) (auto simp: nth_append)
  qed
qed

text \<open>
  Claim C5. At the entry of the state machine loop the start state is chosen from the
  stored phases. If some phase is not completed, the run starts in
  \<open>PHASE_IMPLEMENTING\<close> on the last phase that is not completed (every later phase is
  completed) and the phase list is unchanged. If there are phases and all are completed,
  it starts in \<open>PHASE_GENERATING\<close> with no phase. If there is no phase, it starts in
  \<open>PHASE_IMPLEMENTING\<close> on the initial phase of the blueprint, which is recorded as
  the one, incomplete, phase.
\<close>

theorem launchStateMachine_entry_start:
  assumes "launchStateMachine_entry cycles ag = (st, pc, ag')"
  shows "((\<exists>p \<in> set (generatedPhases (state ag)). \<not> completed p) \<longrightarrow>
            st = PHASE_IMPLEMENTING \<and>
            generatedPhases (state ag') = generatedPhases (state ag) \<and>
            (\<exists>i < length (generatedPhases (state ag)).
               pc = Some (PhaseConceptType.truncate (generatedPhases (state ag) ! i)) \<and>
               \<not> completed (generatedPhases (state ag) ! i) \<and>
               (\<forall>j. i < j \<and> j < length (generatedPhases (state ag)) \<longrightarrow>
                      completed (generatedPhases (state ag) ! j))))
       \<and> ((\<forall>p \<in> set (generatedPhases (state ag)). completed p) \<and>
              generatedPhases (state ag) \<noteq> [] \<longrightarrow>
            st = PHASE_GENERATING \<and> pc = None \<and>
            generatedPhases (state ag') = generatedPhases (state ag))
       \<and> (generatedPhases (state ag) = [] \<longrightarrow>
            st = PHASE_IMPLEMENTING \<and>
            pc = Some (initialPhase (blueprint (state ag))) \<and>
            generatedPhases (state ag') =
              [PhaseConceptType.extend (initialPhase (blueprint (state ag)))
                 (PhaseState.fields False)])"
proof -
  let ?phases = "generatedPhases (state ag)"
  let ?inc = "filter (\<lambda>phase. \<not> completed phase) ?phases"
  have c1: "(\<exists>p \<in> set ?phases. \<not> completed p) \<longleftrightarrow> ?inc \<noteq> []"
    by (auto simp: filter_empty_conv)
  show ?thesis
  proof (intro conjI impI)
    assume ex: "\<exists>p \<in> set ?phases. \<not> completed p"
    then have ne: "?inc \<noteq> []" using c1 by simp
    from assms ne show "st = PHASE_IMPLEMENTING"
      by (auto simp: launchStateMachine_entry_def Let_def setState_def)
    from assms ne show "generatedPhases (state ag') = ?phases"
      by (auto simp: launchStateMachine_entry_def Let_def setState_def)
    from assms ne have pc: "pc = Some (PhaseConceptType.truncate (last ?inc))"
      by (auto simp: launchStateMachine_entry_def Let_def setState_def last_conv_nth)
    from last_filter_index[OF ne] obtain i where
      "i < length ?phases" "last ?inc = ?phases ! i" "\<not> completed (?phases ! i)"
      "\<forall>j. i < j \<and> j < length ?phases \<longrightarrow> \<not> \<not> completed (?phases ! j)" by blast
    with pc show "\<exists>i < length ?phases.
               pc = Some (PhaseConceptType.truncate (?phases ! i)) \<and>
               \<not> completed (?phases ! i) \<and>
               (\<forall>j. i < j \<and> j < length ?phases \<longrightarrow> completed (?phases ! j))"
      by auto
  next
    assume a: "(\<forall>p \<in> set ?phases. completed p) \<and> ?phases \<noteq> []"
    then have e: "?inc = []" by (auto simp: filter_empty_conv)
    from assms e a show "st = PHASE_GENERATING"
      by (auto simp: launchStateMachine_entry_def Let_def setState_def)
    from assms e a show "pc = None"
      by (auto simp: launchStateMachine_entry_def Let_def setState_def)
    from assms e a show "generatedPhases (state ag') = ?phases"
      by (auto simp: launchStateMachine_entry_def Let_def setState_def)
  next
    assume a: "?phases = []"
    from assms a show "st = PHASE_IMPLEMENTING"
      by (auto simp: launchStateMachine_entry_def Let_def setState_def)
    from assms a show "pc = Some (initialPhase (blueprint (state ag)))"
      by (auto simp: launchStateMachine_entry_def Let_def setState_def)
    from assms a show "generatedPhases (state ag') =
              [PhaseConceptType.extend (initialPhase (blueprint (state ag)))
                 (PhaseState.fields False)]"
      by (auto simp: launchStateMachine_entry_def Let_def setState_def createNewIncompletePhase_def)
  qed
qed

text \<open>
  The resume scenario of claim C5: with the stored phases \<open>Setup\<close> (completed) and
  \<open>API\<close> (incomplete) the run enters \<open>PHASE_IMPLEMENTING\<close> on \<open>API\<close>.
\<close>

theorem launchStateMachine_entry_start_witness:
  "(\<exists>p \<in> set (generatedPhases (state resumeAgent)). \<not> completed p) \<and>
   fst (launchStateMachine_entry 5 resumeAgent) = PHASE_IMPLEMENTING \<and>
   map_option name (fst (snd (launchStateMachine_entry 5 resumeAgent))) = Some ''API'' \<and>
   map name (generatedPhases (state (snd (snd (launchStateMachine_entry 5 resumeAgent))))) =
     [''Setup'', ''API'']"
proof -
  have ex: "\<exists>p \<in> set (generatedPhases (state resumeAgent)). \<not> completed p"
    by (simp add: resumeAgent_def)
  have eq: "launchStateMachine_entry 5 resumeAgent =
      (fst (launchStateMachine_entry 5 resumeAgent),
       fst (snd (launchStateMachine_entry 5 resumeAgent)),
       snd (snd (launchStateMachine_entry 5 resumeAgent)))"
    by simp
  from launchStateMachine_entry_start[OF eq] ex
  have st: "fst (launchStateMachine_entry 5 resumeAgent) = PHASE_IMPLEMENTING"
    and ph: "generatedPhases (state (snd (snd (launchStateMachine_entry 5 resumeAgent)))) =
             generatedPhases (state resumeAgent)"
    by blast+
  have pc: "map_option name (fst (snd (launchStateMachine_entry 5 resumeAgent))) = Some ''API''"
    by (simp add: launchStateMachine_entry_def resumeAgent_def newAgent_def initialState_def
        Let_def setState_def PhaseConceptType.truncate_def)
  from ex st ph pc show ?thesis by (simp add: resumeAgent_def)
qed

subsection \<open>Transition after a phase implementation\<close>

text \<open>
  Claim C6. When \<^verbatim>\<open>executePhaseImplementation\<close> has a phase \<open>p\<close> to implement and
  returns a state other than \<open>IDLE\<close> (no exception was caught), the phase was
  implemented, the phase counter is one less than it was when the implementation
  returned, and the next state is \<open>FINALIZING\<close> exactly when (\<open>p\<close> is a last phase or
  the decremented counter is at most 0) and there is no pending user input; otherwise it
  is \<open>PHASE_GENERATING\<close>.
\<close>

theorem executePhaseImplementation_transition:
  assumes res: "resolvePhaseConcept ops phaseConcept ag = Returned (Some p) ag1"
      and run: "executePhaseImplementation ops phaseConcept sa uc ag = Returned (next, sa') ag'"
      and ok: "next \<noteq> IDLE"
  shows "\<exists>issues ag3 ag4.
           implementPhase ops p issues uc ag3 = Returned () ag4 \<and>
           phasesCounter (state ag') = phasesCounter (state ag4) - 1 \<and>
           pendingUserInputs (state ag') = pendingUserInputs (state ag4) \<and>
           (next = FINALIZING \<longleftrightarrow>
              (lastPhase p \<or> phasesCounter (state ag') \<le> 0) \<and> pendingUserInputs (state ag') = []) \<and>
           (next \<noteq> FINALIZING \<longrightarrow> next = PHASE_GENERATING)"
proof -
  let ?ag2 = "setState ((state ag1)\<lparr>currentPhase := None\<rparr>) ag1"
  from run res ok obtain issues ag3 where
    iss: "implementationIssues ops sa ?ag2 = Returned issues ag3"
    by (cases "implementationIssues ops sa ?ag2")
       (auto simp: executePhaseImplementation_def Let_def split: Error.splits)
  from run res ok iss obtain ag4 where
    impl: "implementPhase ops p issues uc ag3 = Returned () ag4"
    by (cases "implementPhase ops p issues uc ag3")
       (auto simp: executePhaseImplementation_def Let_def split: Error.splits)
  let ?counter = "phasesCounter (state ag4) - 1"
  let ?ag5 = "setState ((state ag4)\<lparr>phasesCounter := ?counter\<rparr>) ag4"
  have dec: "decrementPhasesCounter ag4 = (?counter, ?ag5)"
    by (simp add: decrementPhasesCounter_def getPhasesCounter_def Let_def)
  from run res iss impl dec have
    fin: "Returned (next, sa') ag' =
          (if (lastPhase p \<or> ?counter \<le> 0) \<and> length (pendingUserInputs (state ?ag5)) = 0
           then Returned (FINALIZING, sa) ?ag5 else Returned (PHASE_GENERATING, sa) ?ag5)"
    by (simp add: executePhaseImplementation_def Let_def)
  then have ag': "ag' = ?ag5" by (simp split: if_splits)
  have c: "phasesCounter (state ag') = ?counter" and
       q: "pendingUserInputs (state ag') = pendingUserInputs (state ag4)"
    by (simp_all add: ag' setState_def)
  from fin c q have
    n: "next = (if (lastPhase p \<or> phasesCounter (state ag') \<le> 0) \<and> pendingUserInputs (state ag') = []
                then FINALIZING else PHASE_GENERATING)"
    by (simp add: setState_def split: if_splits)
  from impl c q n show ?thesis
    by (intro exI[of _ issues] exI[of _ ag3] exI[of _ ag4]) (auto split: if_splits)
qed

text \<open>
  An instance of claim C6: a new agent (counter 12, no pending input) implements a phase
  that is not a last phase; the counter becomes 11 and the next state is
  \<open>PHASE_GENERATING\<close>.
\<close>

theorem executePhaseImplementation_transition_witness:
  "resolvePhaseConcept quietOperations (Some (emptyPhase\<lparr>name := ''API''\<rparr>)) newAgent =
     Returned (Some (emptyPhase\<lparr>name := ''API''\<rparr>)) newAgent \<and>
   executePhaseImplementation quietOperations (Some (emptyPhase\<lparr>name := ''API''\<rparr>)) None None newAgent =
     Returned (PHASE_GENERATING, None)
       (setState ((state newAgent)\<lparr>currentPhase := None, phasesCounter := 11\<rparr>) newAgent) \<and>
   PHASE_GENERATING \<noteq> IDLE \<and>
   (\<exists>issues ag3 ag4.
      implementPhase quietOperations (emptyPhase\<lparr>name := ''API''\<rparr>) issues None ag3 = Returned () ag4 \<and>
      (11::int) = phasesCounter (state ag4) - 1)"
proof -
  let ?p = "emptyPhase\<lparr>name := ''API''\<rparr>"
  let ?ag' = "setState ((state newAgent)\<lparr>currentPhase := None, phasesCounter := 11\<rparr>) newAgent"
  have res: "resolvePhaseConcept quietOperations (Some ?p) newAgent = Returned (Some ?p) newAgent"
    by (simp add: resolvePhaseConcept_def)
  have run: "executePhaseImplementation quietOperations (Some ?p) None None newAgent =
               Returned (PHASE_GENERATING, None) ?ag'"
    by (simp add: executePhaseImplementation_def resolvePhaseConcept_def implementationIssues_def
        quietOperations_def decrementPhasesCounter_def getPhasesCounter_def setState_def
        newAgent_def initialState_def emptyPhase_def MAX_PHASES_def Let_def)
  have ok: "PHASE_GENERATING \<noteq> IDLE" by simp
  have c: "phasesCounter (state ?ag') = 11" by (simp add: setState_def)
  from executePhaseImplementation_transition[OF res run ok] c
  have "\<exists>issues ag3 ag4.
      implementPhase quietOperations ?p issues None ag3 = Returned () ag4 \<and>
      (11::int) = phasesCounter (state ag4) - 1"
    by auto
  with res run ok show ?thesis by blast
qed

text \<open>
  The other direction: when the phase is resolved, the issues are fetched and the
  implementation returns, \<^verbatim>\<open>executePhaseImplementation\<close> returns with the counter
  decremented by one and with the next state chosen as above; it does not end in
  \<open>IDLE\<close> and does not throw.
\<close>

lemma executePhaseImplementation_after_success:
  assumes "resolvePhaseConcept ops phaseConcept ag = Returned (Some p) ag1"
      and "implementationIssues ops sa (setState ((state ag1)\<lparr>currentPhase := None\<rparr>) ag1) =
             Returned issues ag3"
      and "implementPhase ops p issues uc ag3 = Returned () ag4"
  shows "executePhaseImplementation ops phaseConcept sa uc ag =
           Returned
             (if (lastPhase p \<or> phasesCounter (state ag4) - 1 \<le> 0) \<and>
                 pendingUserInputs (state ag4) = []
              then FINALIZING else PHASE_GENERATING, sa)
             (setState ((state ag4)\<lparr>phasesCounter := phasesCounter (state ag4) - 1\<rparr>) ag4)"
  using assms
  by (simp add: executePhaseImplementation_def decrementPhasesCounter_def getPhasesCounter_def
      setState_def Let_def)

subsection \<open>Single-flight entry\<close>

text \<open>
  Claim C1 as stated fails. A first call of \<^verbatim>\<open>generateAllFiles\<close> on a new agent
  launches run 0. A second call made while that run is active returns at once: its
  promise is settled although the run is still active, and only
  \<^verbatim>\<open>waitForGeneration\<close> waits for run 0.
\<close>

theorem generateAllFiles_reentry_resolves_at_once:
  "isCodeGenerating (snd (generateAllFiles 5 newAgent)) \<and>
   fst (generateAllFiles 5 (snd (generateAllFiles 5 newAgent))) = ResolvesNow \<and>
   isCodeGenerating (snd (generateAllFiles 5 (snd (generateAllFiles 5 newAgent)))) \<and>
   waitForGeneration (snd (generateAllFiles 5 newAgent)) = AwaitsRun 0"
  by (simp add: generateAllFiles_def newAgent_def initialState_def isCodeGenerating_def
      launchStateMachine_start_def broadcast_def Let_def waitForGeneration_def)

text \<open>
  Claim C1, amended. A call of \<^verbatim>\<open>generateAllFiles\<close> made while a run is active
  starts no second run and changes nothing: the agent, with its count of launches, its
  stored promise and its broadcasts, is the same after the call. The call returns at
  once without waiting for the active run; \<^verbatim>\<open>waitForGeneration\<close> is what waits
  for it.
\<close>

theorem generateAllFiles_single_flight:
  assumes "isCodeGenerating ag"
  shows "generateAllFiles cycles ag = (ResolvesNow, ag) \<and>
         (\<exists>run. generationPromise ag = Some run \<and> waitForGeneration ag = AwaitsRun run)"
  using assms by (auto simp: generateAllFiles_def isCodeGenerating_def waitForGeneration_def)

theorem generateAllFiles_single_flight_witness:
  "isCodeGenerating (snd (generateAllFiles 5 newAgent)) \<and>
   generateAllFiles 5 (snd (generateAllFiles 5 newAgent)) =
     (ResolvesNow, snd (generateAllFiles 5 newAgent)) \<and>
   launched (snd (generateAllFiles 5 newAgent)) = 1"
proof -
  have g: "isCodeGenerating (snd (generateAllFiles 5 newAgent))"
    by (simp add: generateAllFiles_def newAgent_def initialState_def isCodeGenerating_def
      launchStateMachine_start_def broadcast_def Let_def)
  have l: "launched (snd (generateAllFiles 5 newAgent)) = 1"
    by (simp add: generateAllFiles_def newAgent_def initialState_def isCodeGenerating_def
      launchStateMachine_start_def broadcast_def Let_def)
  from g l generateAllFiles_single_flight[OF g, of 5] show ?thesis by simp
qed

subsection \<open>Renaming the project\<close>

text \<open>
  Claim C9. For every new name that does not match the slug pattern,
  \<^verbatim>\<open>updateProjectName\<close> returns false and leaves the agent as it was: the persisted
  state with its blueprint, the sandbox project, the registry row and the list of
  broadcast messages are unchanged, whatever the sandbox and the registry would reply
  and whatever other requests would do meanwhile (the call returns before any
  \<^verbatim>\<open>await\<close>).
\<close>

theorem updateProjectName_invalid:
  assumes "\<not> testProjectName newName"
  shows "updateProjectName newName sandboxReply duringSandbox dbReply duringRegistry ag = (False, ag)"
  using assms by (simp add: updateProjectName_def)

text \<open>The name \<open>My App\<close> of claim C9 is rejected.\<close>

theorem updateProjectName_invalid_witness:
  "\<not> testProjectName ''My App'' \<and>
   updateProjectName ''My App'' (Replied True) noOtherRequests (Replied True) noOtherRequests newAgent =
     (False, newAgent)"
proof -
  have n: "\<not> testProjectName ''My App''"
    by (simp add: testProjectName_def slugChar_def)
  from n updateProjectName_invalid[OF n] show ?thesis by simp
qed

lemmas rename_eval = updateProjectName_def testProjectName_def slugChar_def setState_def
  newAgent_def initialState_def updateApp_def sandboxUpdateProjectName_def broadcast_def
  noOtherRequests_def Let_def

text \<open>
  Claim C2 as stated fails. An agent whose project is named \<open>todo-app-k3x9\<close> is renamed
  to \<open>my-app_1\<close>, with no other request served meanwhile; the call returns true, the
  blueprint and the registry row carry the new name, and the field \<^verbatim>\<open>projectName\<close>
  of the state still holds the old one.
\<close>

theorem updateProjectName_keeps_state_projectName:
  "fst (updateProjectName ''my-app_1'' (Replied True) noOtherRequests (Replied True) noOtherRequests
          namedAgent) = True \<and>
   Blueprint.projectName (blueprint (state (snd (updateProjectName ''my-app_1'' (Replied True)
          noOtherRequests (Replied True) noOtherRequests namedAgent)))) = ''my-app_1'' \<and>
   appTitle (registry (snd (updateProjectName ''my-app_1'' (Replied True) noOtherRequests
          (Replied True) noOtherRequests namedAgent))) = ''my-app_1'' \<and>
   projectName (state (snd (updateProjectName ''my-app_1'' (Replied True) noOtherRequests
          (Replied True) noOtherRequests namedAgent))) = ''todo-app-k3x9'' \<and>
   ''todo-app-k3x9'' \<noteq> ''my-app_1''"
  by (simp add: rename_eval namedAgent_def)

text \<open>
  The names agree after a successful rename only if no other request touches them
  meanwhile. Here a rename to \<open>bbb\<close> is served, from start to end, while a rename to
  \<open>aaa\<close> awaits the registry, before the write of the registry lands. The rename to
  \<open>aaa\<close> returns true; the blueprint then carries \<open>bbb\<close> and the registry row \<open>aaa\<close>.
\<close>

lemma updateProjectName_interleaved_renames:
  "fst (updateProjectName ''aaa'' (Replied True) noOtherRequests (Replied True)
          \<lparr>beforeService = (\<lambda>ag. snd (updateProjectName ''bbb'' (Replied True) noOtherRequests
                                        (Replied True) noOtherRequests ag)),
           afterService = (\<lambda>ag. ag)\<rparr>
          namedAgent) = True \<and>
   Blueprint.projectName (blueprint (state (snd (updateProjectName ''aaa'' (Replied True)
          noOtherRequests (Replied True)
          \<lparr>beforeService = (\<lambda>ag. snd (updateProjectName ''bbb'' (Replied True) noOtherRequests
                                        (Replied True) noOtherRequests ag)),
           afterService = (\<lambda>ag. ag)\<rparr>
          namedAgent)))) = ''bbb'' \<and>
   appTitle (registry (snd (updateProjectName ''aaa'' (Replied True) noOtherRequests (Replied True)
          \<lparr>beforeService = (\<lambda>ag. snd (updateProjectName ''bbb'' (Replied True) noOtherRequests
                                        (Replied True) noOtherRequests ag)),
           afterService = (\<lambda>ag. ag)\<rparr>
          namedAgent))) = ''aaa''"
  by (simp add: rename_eval namedAgent_def)

lemma leavesNamesAlone_names:
  assumes "leavesNamesAlone request"
  shows "Blueprint.projectName (blueprint (state (request ag))) =
           Blueprint.projectName (blueprint (state ag))"
    and "projectName (state (request ag)) = projectName (state ag)"
    and "appTitle (registry (request ag)) = appTitle (registry ag)"
    and "sandboxProjectName (request ag) = sandboxProjectName ag"
  using assms unfolding leavesNamesAlone_def by blast+

text \<open>
  What a successful rename gives whatever else happens meanwhile: the name is valid, the
  registry has replied true, the sandbox has replied true when there is a sandbox
  instance, and the last message broadcast is the one of this rename.
\<close>

lemma updateProjectName_success_replies:
  assumes "updateProjectName newName sandboxReply duringSandbox dbReply duringRegistry ag = (True, ag')"
  shows "testProjectName newName"
    and "dbReply = Replied True"
    and "sandboxInstanceId (state ag) \<noteq> None \<and> sandboxInstanceId (state ag) \<noteq> Some [] \<longrightarrow>
           sandboxReply = Replied True"
    and "broadcasts ag' \<noteq> [] \<and> last (broadcasts ag') = PROJECT_NAME_UPDATED newName"
proof -
  from assms show v: "testProjectName newName"
    by (auto simp: updateProjectName_def split: if_splits)
  from assms v show d: "dbReply = Replied True"
    by (cases dbReply)
       (auto simp: updateProjectName_def Let_def split: prod.splits if_splits)
  from assms v d show "sandboxInstanceId (state ag) \<noteq> None \<and> sandboxInstanceId (state ag) \<noteq> Some [] \<longrightarrow>
           sandboxReply = Replied True"
    by (cases sandboxReply)
       (auto simp: updateProjectName_def Let_def setState_def split: prod.splits if_splits)
  from assms v show "broadcasts ag' \<noteq> [] \<and> last (broadcasts ag') = PROJECT_NAME_UPDATED newName"
    by (auto simp: updateProjectName_def Let_def broadcast_def split: prod.splits if_splits)
qed

text \<open>
  Claim C2, amended. Take a rename for which \<^verbatim>\<open>updateProjectName\<close> returns true, and
  let the requests served while its sandbox call and its registry call are awaited leave
  the names of the project alone. Then the new name matches the pattern, the project
  name of the blueprint and the title of the registry row equal the new name, the last
  message broadcast is the one of this rename, and the sandbox project carries the new
  name when there is a sandbox instance. The field \<^verbatim>\<open>projectName\<close> of the state
  itself is not written by the rename: it keeps its value.
\<close>

theorem updateProjectName_success:
  assumes run: "updateProjectName newName sandboxReply duringSandbox dbReply duringRegistry ag =
                  (True, ag')"
      and sb: "namesLeftAlone duringSandbox"
      and db: "namesLeftAlone duringRegistry"
  shows "testProjectName newName \<and>
         Blueprint.projectName (blueprint (state ag')) = newName \<and>
         appTitle (registry ag') = newName \<and>
         projectName (state ag') = projectName (state ag) \<and>
         last (broadcasts ag') = PROJECT_NAME_UPDATED newName \<and>
         (sandboxInstanceId (state ag) \<noteq> None \<and> sandboxInstanceId (state ag) \<noteq> Some [] \<longrightarrow>
            sandboxProjectName ag' = newName)"
proof -
  note rep = updateProjectName_success_replies[OF run]
  let ?inst = "sandboxInstanceId (state ag) \<noteq> None \<and> sandboxInstanceId (state ag) \<noteq> Some []"
  let ?ag1 = "setState ((state ag)\<lparr>blueprint :=
                (blueprint (state ag))\<lparr>Blueprint.projectName := newName\<rparr>\<rparr>) ag"
  let ?ag2 = "if ?inst
              then afterService duringSandbox
                     (sandboxUpdateProjectName newName sandboxReply (beforeService duringSandbox ?ag1))
              else ?ag1"
  let ?ag3 = "afterService duringRegistry
                (updateApp (\<lambda>row. row\<lparr>appTitle := newName\<rparr>) dbReply
                   (beforeService duringRegistry ?ag2))"
  from sb have sb1: "leavesNamesAlone (beforeService duringSandbox)"
    and sb2: "leavesNamesAlone (afterService duringSandbox)"
    by (simp_all add: namesLeftAlone_def)
  from db have db1: "leavesNamesAlone (beforeService duringRegistry)"
    and db2: "leavesNamesAlone (afterService duringRegistry)"
    by (simp_all add: namesLeftAlone_def)
  have end': "ag' = broadcast (PROJECT_NAME_UPDATED newName) ?ag3"
    using run rep(1)
    by (auto simp: updateProjectName_def Let_def setState_def split: prod.splits if_splits)
  have b1: "Blueprint.projectName (blueprint (state ?ag1)) = newName"
    and p1: "projectName (state ?ag1) = projectName (state ag)"
    by (simp_all add: setState_def)
  have b2: "Blueprint.projectName (blueprint (state ?ag2)) = newName"
    using b1
    by (simp add: leavesNamesAlone_names(1)[OF sb1] leavesNamesAlone_names(1)[OF sb2]
        sandboxUpdateProjectName_def split: ServiceReply.splits bool.splits)
  have p2: "projectName (state ?ag2) = projectName (state ag)"
    using p1
    by (simp add: leavesNamesAlone_names(2)[OF sb1] leavesNamesAlone_names(2)[OF sb2]
        sandboxUpdateProjectName_def split: ServiceReply.splits bool.splits)
  have s2: "?inst \<longrightarrow> sandboxProjectName ?ag2 = newName"
    using rep(3)
    by (simp add: leavesNamesAlone_names(4)[OF sb2] sandboxUpdateProjectName_def)
  have b3: "Blueprint.projectName (blueprint (state ?ag3)) = newName"
    using b2
    by (simp add: leavesNamesAlone_names(1)[OF db1] leavesNamesAlone_names(1)[OF db2]
        updateApp_def rep(2))
  have p3: "projectName (state ?ag3) = projectName (state ag)"
    using p2
    by (simp add: leavesNamesAlone_names(2)[OF db1] leavesNamesAlone_names(2)[OF db2]
        updateApp_def rep(2))
  have t3: "appTitle (registry ?ag3) = newName"
    by (simp add: leavesNamesAlone_names(3)[OF db2] updateApp_def rep(2))
  have s3: "?inst \<longrightarrow> sandboxProjectName ?ag3 = newName"
    using s2
    by (simp add: leavesNamesAlone_names(4)[OF db1] leavesNamesAlone_names(4)[OF db2]
        updateApp_def rep(2))
  from b3 p3 t3 s3 rep(1) rep(4) show ?thesis
    unfolding end' by (simp add: broadcast_def)
qed

text \<open>
  An instance of the amended claim C2: the rename to \<open>my-app_1\<close> of the rename
  scenario, on an agent with a sandbox instance, while a user request is queued during
  the sandbox call.
\<close>

theorem updateProjectName_success_witness:
  "namesLeftAlone requestQueuedMeanwhile \<and> namesLeftAlone noOtherRequests \<and>
   fst (updateProjectName ''my-app_1'' (Replied True) requestQueuedMeanwhile (Replied True)
          noOtherRequests deployedAgent) = True \<and>
   Blueprint.projectName (blueprint (state (snd (updateProjectName ''my-app_1'' (Replied True)
          requestQueuedMeanwhile (Replied True) noOtherRequests deployedAgent)))) = ''my-app_1'' \<and>
   appTitle (registry (snd (updateProjectName ''my-app_1'' (Replied True) requestQueuedMeanwhile
          (Replied True) noOtherRequests deployedAgent))) = ''my-app_1'' \<and>
   sandboxProjectName (snd (updateProjectName ''my-app_1'' (Replied True) requestQueuedMeanwhile
          (Replied True) noOtherRequests deployedAgent)) = ''my-app_1'' \<and>
   projectName (state (snd (updateProjectName ''my-app_1'' (Replied True) requestQueuedMeanwhile
          (Replied True) noOtherRequests deployedAgent))) = ''todo-app-k3x9'' \<and>
   pendingUserInputs (state (snd (updateProjectName ''my-app_1'' (Replied True)
          requestQueuedMeanwhile (Replied True) noOtherRequests deployedAgent))) = [''add a dark mode'']"
proof -
  let ?r = "updateProjectName ''my-app_1'' (Replied True) requestQueuedMeanwhile (Replied True)
              noOtherRequests deployedAgent"
  have q: "namesLeftAlone requestQueuedMeanwhile"
    by (simp add: namesLeftAlone_def leavesNamesAlone_def requestQueuedMeanwhile_def
        queueUserRequest_def rechargePhasesCounter_def getPhasesCounter_def setState_def Let_def)
  have n: "namesLeftAlone noOtherRequests"
    by (simp add: namesLeftAlone_def leavesNamesAlone_def noOtherRequests_def)
  have f: "fst ?r = True"
    by (simp add: rename_eval deployedAgent_def requestQueuedMeanwhile_def)
  have eq: "?r = (True, snd ?r)"
    by (subst f[symmetric]) (rule prod.collapse[symmetric])
  have inst: "sandboxInstanceId (state deployedAgent) \<noteq> None \<and>
              sandboxInstanceId (state deployedAgent) \<noteq> Some []"
    by (simp add: deployedAgent_def setState_def)
  have old: "projectName (state deployedAgent) = ''todo-app-k3x9''"
    by (simp add: deployedAgent_def setState_def)
  have pend: "pendingUserInputs (state (snd ?r)) = [''add a dark mode'']"
    by (simp add: rename_eval deployedAgent_def requestQueuedMeanwhile_def
        queueUserRequest_def rechargePhasesCounter_def getPhasesCounter_def MAX_PHASES_def)
  from updateProjectName_success[OF eq q n] inst old q n f pend show ?thesis by simp
qed

subsection \<open>The deep debug tool within one conversation turn\<close>

text \<open>
  Claim C3, evaluated on the code. One conversation turn, one tool object. The first
  call of \<^verbatim>\<open>deep_debug\<close> is made while run 0 is active and returns the error
  \<open>GENERATION_IN_PROGRESS\<close>; the call counter is 1 after it. The run then completes.
  The retry with the same tool object returns \<open>CALL_LIMIT_EXCEEDED\<close> and no debug
  session runs, where the claim expects a transcript. A tool object made anew (the next
  turn) gives the transcript on the same agent.
\<close>

theorem deep_debug_retry_in_same_turn:
  "isCodeGenerating (snd (generateAllFiles 5 newAgent)) \<and>
   deep_debug (\<lambda>issue prev. DebugReturns ''TASK_COMPLETE: fixed'') ''fix the app''
       (createDeepDebuggerTool, snd (generateAllFiles 5 newAgent)) =
     (error GENERATION_IN_PROGRESS, \<lparr>callCount = 1\<rparr>, snd (generateAllFiles 5 newAgent)) \<and>
   waitForGeneration (snd (generateAllFiles 5 newAgent)) = AwaitsRun 0 \<and>
   \<not> isCodeGenerating (launchStateMachine_finally (Replied True) (snd (generateAllFiles 5 newAgent))) \<and>
   deep_debug (\<lambda>issue prev. DebugReturns ''TASK_COMPLETE: fixed'') ''fix the app''
       (\<lparr>callCount = 1\<rparr>,
        launchStateMachine_finally (Replied True) (snd (generateAllFiles 5 newAgent))) =
     (error CALL_LIMIT_EXCEEDED, \<lparr>callCount = 1\<rparr>,
      launchStateMachine_finally (Replied True) (snd (generateAllFiles 5 newAgent))) \<and>
   fst (deep_debug (\<lambda>issue prev. DebugReturns ''TASK_COMPLETE: fixed'') ''fix the app''
       (createDeepDebuggerTool,
        launchStateMachine_finally (Replied True) (snd (generateAllFiles 5 newAgent)))) =
     transcript ''TASK_COMPLETE: fixed''"
  by (simp add: deep_debug_def createDeepDebuggerTool_def generateAllFiles_def newAgent_def
      initialState_def isCodeGenerating_def isDeepDebugging_def launchStateMachine_start_def
      launchStateMachine_finally_def updateApp_def broadcast_def waitForGeneration_def
      executeDeepDebug_def setState_def Let_def)

text \<open>
  The same in general: once a tool object has answered a call, with whatever result,
  every later call on it is refused, whatever the agent does in between.
\<close>

lemma deep_debug_counts_every_call:
  "callCount (fst (snd (deep_debug dbg issue (tool, ag)))) > 0"
  by (simp add: deep_debug_def Let_def split: prod.splits DeepDebugResult.splits)

lemma deep_debug_refused_after_call:
  "fst (deep_debug dbg2 issue2 (fst (snd (deep_debug dbg issue (tool, ag))), ag2)) =
     error CALL_LIMIT_EXCEEDED"
  using deep_debug_counts_every_call[of dbg issue tool ag]
  by (simp add: deep_debug_def Let_def)

text \<open>
  When the body of \<^verbatim>\<open>executeDeepDebug\<close> throws before its first \<^verbatim>\<open>await\<close>, the
  call reports the failure and the promise stays stored: the agent counts as debugging
  from then on. When it throws later, or returns, the promise is cleared.
\<close>

lemma executeDeepDebug_throw_at_start:
  assumes "dbg issue (lastDeepDebugTranscript (state ag)) = DebugThrowsAtStart e"
  shows "fst (executeDeepDebug dbg issue ag) = DebugFailure (''Deep debugger failed: '' @ e) \<and>
         isDeepDebugging (snd (executeDeepDebug dbg issue ag))"
  using assms by (simp add: executeDeepDebug_def isDeepDebugging_def Let_def)

lemma executeDeepDebug_settled:
  assumes "\<forall>e. dbg issue (lastDeepDebugTranscript (state ag)) \<noteq> DebugThrowsAtStart e"
  shows "\<not> isDeepDebugging (snd (executeDeepDebug dbg issue ag))"
  using assms
  by (cases "dbg issue (lastDeepDebugTranscript (state ag))")
     (simp_all add: executeDeepDebug_def isDeepDebugging_def setState_def Let_def)

subsection \<open>Loop detection in the debugger session\<close>

text \<open>
  Claim C4, evaluated on the code. The debug tool \<open>deploy_preview\<close> is called three
  times with the same arguments, at 0, 1 and 2 seconds; what the tool acts on is the
  number of deployments made. At the third call the repetition is detected and the
  warning is added to the conversation of the model, and the tool is executed all the
  same: the result is the one of the tool and three deployments were made, where the
  claim expects the third call to have no effect.
\<close>

theorem wrappedImplementation_executes_on_repetition:
  "fst (detectRepetition ''deploy_preview'' ''{}'' 2000
      (fst (snd (wrappedImplementation ''deploy_preview'' (\<lambda>a n. (''Deployment successful'', Suc n)) ''{}'' 1000
        (snd (wrappedImplementation ''deploy_preview'' (\<lambda>a n. (''Deployment successful'', Suc n)) ''{}'' 0
           (newDeepCodeDebugger, 0::nat))))))) \<and>
   wrappedImplementation ''deploy_preview'' (\<lambda>a n. (''Deployment successful'', Suc n)) ''{}'' 2000
      (snd (wrappedImplementation ''deploy_preview'' (\<lambda>a n. (''Deployment successful'', Suc n)) ''{}'' 1000
        (snd (wrappedImplementation ''deploy_preview'' (\<lambda>a n. (''Deployment successful'', Suc n)) ''{}'' 0
           (newDeepCodeDebugger, 0::nat))))) =
     (''Deployment successful'',
      \<lparr>loopDetection = \<lparr>recentCalls =
          [\<lparr>toolName = ''deploy_preview'', args = ''{}'', timestamp = 0\<rparr>,
           \<lparr>toolName = ''deploy_preview'', args = ''{}'', timestamp = 1000\<rparr>,
           \<lparr>toolName = ''deploy_preview'', args = ''{}'', timestamp = 2000\<rparr>],
          repetitionWarnings = 1\<rparr>,
        history = [createUserMessage (warningMessage ''deploy_preview'' 1)]\<rparr>,
      3)"
  by (simp add: wrappedImplementation_def detectRepetition_def injectLoopWarning_def
      newDeepCodeDebugger_def save_def Let_def)

text \<open>
  In general the wrapper always applies the tool, and when the repetition is detected it
  adds exactly one message, the warning, to the conversation.
\<close>

lemma wrappedImplementation_always_executes:
  "fst (wrappedImplementation tool implementation argsStr now (d, w)) =
     fst (implementation argsStr w) \<and>
   snd (snd (wrappedImplementation tool implementation argsStr now (d, w))) =
     snd (implementation argsStr w)"
  by (simp add: wrappedImplementation_def Let_def split: prod.splits)

lemma wrappedImplementation_warns:
  assumes "fst (detectRepetition tool argsStr now d)"
  shows "history (fst (snd (wrappedImplementation tool implementation argsStr now (d, w)))) =
           history d @ [createUserMessage (warningMessage tool
                          (repetitionWarnings (loopDetection d) + 1))]"
  using assms
  by (simp add: wrappedImplementation_def detectRepetition_def injectLoopWarning_def save_def
      Let_def split: prod.splits)

subsection \<open>Saving generated files\<close>

lemma extend_fields:
  "filePath (FileOutputType.extend f (FileState.fields d)) = filePath f"
  "fileContents (FileOutputType.extend f (FileState.fields d)) = fileContents f"
  "filePurpose (FileOutputType.extend f (FileState.fields d)) = filePurpose f"
  "lastDiff (FileOutputType.extend f (FileState.fields d)) = d"
  by (simp_all add: FileOutputType.defs FileState.defs)

lemma newFileState_fields:
  "filePath (newFileState cp fm m f) = filePath f"
  "fileContents (newFileState cp fm m f) = fileContents f"
  "filePurpose (newFileState cp fm m f) = filePurpose f"
  by (simp_all add: newFileState_def Let_def extend_fields)

lemma newFileState_nodiff:
  assumes "m (filePath f) = Some e" and "fileContents e = fileContents f"
  shows "lastDiff (newFileState cp fm m f) = []"
  using assms by (simp add: newFileState_def Let_def extend_fields)

lemma agreesWith_upd:
  assumes "agreesWith m gs"
      and "\<forall>g \<in> set gs. filePath g = filePath f \<longrightarrow> fileContents g = fileContents f"
  shows "agreesWith (m(filePath f \<mapsto> newFileState cp fm m f)) gs"
  unfolding agreesWith_def
proof
  fix g assume g: "g \<in> set gs"
  show "\<exists>e. (m(filePath f \<mapsto> newFileState cp fm m f)) (filePath g) = Some e \<and>
            fileContents e = fileContents g"
  proof (cases "filePath g = filePath f")
    case True
    with assms(2) g have "fileContents g = fileContents f" by blast
    with True show ?thesis by (simp add: newFileState_fields)
  next
    case False
    with assms(1) g show ?thesis by (auto simp: agreesWith_def)
  qed
qed

lemma agreesWith_snoc:
  assumes "agreesWith m gs"
      and "\<forall>g \<in> set gs. filePath g = filePath f \<longrightarrow> fileContents g = fileContents f"
  shows "agreesWith (m(filePath f \<mapsto> newFileState cp fm m f)) (gs @ [f])"
proof -
  have a: "agreesWith (m(filePath f \<mapsto> newFileState cp fm m f)) gs"
    using assms by (rule agreesWith_upd)
  have b: "agreesWith (m(filePath f \<mapsto> newFileState cp fm m f)) [f]"
    by (simp add: agreesWith_def newFileState_fields)
  from a b show ?thesis by (auto simp: agreesWith_def)
qed


lemma consistentFiles_Cons:
  assumes "consistentFiles (f # fs)"
  shows "consistentFiles fs"
    and "\<forall>g \<in> set fs. filePath g = filePath f \<longrightarrow> fileContents g = fileContents f"
proof -
  show "consistentFiles fs"
    unfolding consistentFiles_def
  proof (intro ballI impI)
    fix a b assume "a \<in> set fs" "b \<in> set fs" "filePath a = filePath b"
    moreover from this have "a \<in> set (f # fs)" "b \<in> set (f # fs)" by simp_all
    ultimately show "fileContents a = fileContents b"
      using assms unfolding consistentFiles_def by blast
  qed
  show "\<forall>g \<in> set fs. filePath g = filePath f \<longrightarrow> fileContents g = fileContents f"
  proof (intro ballI impI)
    fix g assume "g \<in> set fs" "filePath g = filePath f"
    moreover from this have "g \<in> set (f # fs)" "f \<in> set (f # fs)" by simp_all
    ultimately show "fileContents g = fileContents f"
      using assms unfolding consistentFiles_def by blast
  qed
qed

lemma consistentFiles_mid:
  assumes "consistentFiles (done @ f # fs)"
  shows "\<forall>g \<in> set done. filePath g = filePath f \<longrightarrow> fileContents g = fileContents f"
proof (intro ballI impI)
  fix g assume "g \<in> set done" "filePath g = filePath f"
  moreover from this have "g \<in> set (done @ f # fs)" "f \<in> set (done @ f # fs)" by simp_all
  ultimately show "fileContents g = fileContents f"
    using assms unfolding consistentFiles_def by blast
qed

lemma saveLoop_snd:
  "\<exists>new. snd (saveLoop cp fm fs (m, acc)) = acc @ new \<and>
         map filePath new = map filePath fs \<and> map fileContents new = map fileContents fs \<and>
         map filePurpose new = map filePurpose fs"
proof (induction fs arbitrary: m acc)
  case Nil
  then show ?case by simp
next
  case (Cons f fs)
  let ?st = "newFileState cp fm m f"
  from Cons.IH[of "m(filePath f \<mapsto> ?st)" "acc @ [?st]"] obtain new where
    n: "snd (saveLoop cp fm fs (m(filePath f \<mapsto> ?st), acc @ [?st])) = (acc @ [?st]) @ new"
       "map filePath new = map filePath fs" "map fileContents new = map fileContents fs"
       "map filePurpose new = map filePurpose fs"
    by blast
  show ?case
    by (rule exI[of _ "?st # new"]) (use n in \<open>simp add: newFileState_fields\<close>)
qed


lemma saveLoop_nodiff:
  assumes "agreesWith m fs" and "consistentFiles fs"
  shows "\<exists>new. snd (saveLoop cp fm fs (m, acc)) = acc @ new \<and> (\<forall>s \<in> set new. lastDiff s = []) \<and>
           length new = length fs"
  using assms
proof (induction fs arbitrary: m acc)
  case Nil
  show ?case by simp
next
  case (Cons f fs)
  have "f \<in> set (f # fs)" by simp
  with Cons.prems(1) obtain e where e: "m (filePath f) = Some e" "fileContents e = fileContents f"
    unfolding agreesWith_def by blast
  let ?st = "newFileState cp fm m f"
  have d: "lastDiff ?st = []" using e by (rule newFileState_nodiff)
  have tl: "agreesWith m fs" using Cons.prems(1) unfolding agreesWith_def by simp
  have cf: "\<forall>g \<in> set fs. filePath g = filePath f \<longrightarrow> fileContents g = fileContents f"
    using Cons.prems(2) by (rule consistentFiles_Cons(2))
  have ag: "agreesWith (m(filePath f \<mapsto> ?st)) fs"
    using tl cf by (rule agreesWith_upd)
  have co: "consistentFiles fs"
    using Cons.prems(2) by (rule consistentFiles_Cons(1))
  from Cons.IH[OF ag co, of "acc @ [?st]"] obtain new where
    n: "snd (saveLoop cp fm fs (m(filePath f \<mapsto> ?st), acc @ [?st])) = (acc @ [?st]) @ new"
       "\<forall>s \<in> set new. lastDiff s = []" "length new = length fs"
    by blast
  have 1: "snd (saveLoop cp fm (f # fs) (m, acc)) = acc @ (?st # new)"
    using n(1) by (simp only: saveLoop.simps append_assoc append_Cons append_Nil)
  have 2: "\<forall>s \<in> set (?st # new). lastDiff s = []" using n(2) d by simp
  have 3: "length (?st # new) = length (f # fs)" using n(3) by simp
  from 1 2 3 show ?case by blast
qed

lemma saveLoop_agrees:
  assumes "agreesWith m done" and "consistentFiles (done @ fs)"
  shows "agreesWith (fst (saveLoop cp fm fs (m, acc))) (done @ fs)"
  using assms
proof (induction fs arbitrary: m acc "done")
  case Nil
  then show ?case by simp
next
  case (Cons f fs)
  let ?st = "newFileState cp fm m f"
  have cf: "\<forall>g \<in> set done. filePath g = filePath f \<longrightarrow> fileContents g = fileContents f"
    using Cons.prems(2) by (rule consistentFiles_mid)
  have ag: "agreesWith (m(filePath f \<mapsto> ?st)) (done @ [f])"
    using Cons.prems(1) cf by (rule agreesWith_snoc)
  have co: "consistentFiles ((done @ [f]) @ fs)" using Cons.prems(2) by simp
  have "agreesWith (fst (saveLoop cp fm fs (m(filePath f \<mapsto> ?st), acc @ [?st]))) ((done @ [f]) @ fs)"
    using ag co by (rule Cons.IH)
  then show ?case by (simp only: saveLoop.simps append_assoc append_Cons append_Nil)
qed


lemma writeFiles_snoc:
  "writeFiles (xs @ [x]) t = (writeFiles xs t)(filePath x \<mapsto> fileContents x)"
  by (simp add: writeFiles_def)

lemma writeFiles_consistent:
  assumes "\<forall>f \<in> set fs. \<forall>g \<in> set fs. filePath f = filePath g \<longrightarrow> fileContents f = fileContents g"
      and "s \<in> set fs"
  shows "writeFiles fs t (filePath s) = Some (fileContents s)"
  using assms
proof (induction fs rule: rev_induct)
  case Nil
  from Nil(2) show ?case by simp
next
  case (snoc x xs)
  show ?case
  proof (cases "filePath s = filePath x")
    case True
    have "x \<in> set (xs @ [x])" by simp
    with snoc.prems True have "fileContents s = fileContents x" by blast
    with True show ?thesis by (simp only: writeFiles_snoc fun_upd_same)
  next
    case False
    with snoc.prems(2) have sx: "s \<in> set xs" by auto
    have "\<forall>f \<in> set xs. \<forall>g \<in> set xs. filePath f = filePath g \<longrightarrow> fileContents f = fileContents g"
    proof (intro ballI impI)
      fix a b assume "a \<in> set xs" "b \<in> set xs" "filePath a = filePath b"
      moreover from this have "a \<in> set (xs @ [x])" "b \<in> set (xs @ [x])" by simp_all
      ultimately show "fileContents a = fileContents b" using snoc.prems(1) by blast
    qed
    then have "writeFiles xs t (filePath s) = Some (fileContents s)"
      using sx by (rule snoc.IH)
    with False show ?thesis by (simp add: writeFiles_snoc)
  qed
qed

lemma same_columns_ex:
  assumes "map filePath new = map filePath fs" and "map fileContents new = map fileContents fs"
      and "f \<in> set fs"
  shows "\<exists>s \<in> set new. filePath s = filePath f \<and> fileContents s = fileContents f"
proof -
  from assms(3) obtain i where i: "i < length fs" "fs ! i = f" by (auto simp: in_set_conv_nth)
  from assms(1) have len: "length new = length fs" by (rule map_eq_imp_length_eq)
  have "filePath (new ! i) = map filePath new ! i" using i len by simp
  also have "\<dots> = filePath f" using i assms(1) by simp
  finally have p: "filePath (new ! i) = filePath f" .
  have "fileContents (new ! i) = map fileContents new ! i" using i len by simp
  also have "\<dots> = fileContents f" using i assms(2) by simp
  finally have c: "fileContents (new ! i) = fileContents f" .
  have "new ! i \<in> set new" using i len by simp
  with p c show ?thesis by blast
qed

lemma same_columns_ex_rev:
  assumes "map filePath new = map filePath fs" and "map fileContents new = map fileContents fs"
      and "s \<in> set new"
  shows "\<exists>f \<in> set fs. filePath s = filePath f \<and> fileContents s = fileContents f"
proof -
  from assms(3) obtain i where i: "i < length new" "new ! i = s" by (auto simp: in_set_conv_nth)
  from assms(1) have len: "length new = length fs" by (rule map_eq_imp_length_eq)
  have "filePath (fs ! i) = map filePath fs ! i" using i len by simp
  also have "\<dots> = filePath s" using i assms(1)[symmetric] by simp
  finally have p: "filePath (fs ! i) = filePath s" .
  have "fileContents (fs ! i) = map fileContents fs ! i" using i len by simp
  also have "\<dots> = fileContents s" using i assms(2)[symmetric] by simp
  finally have c: "fileContents (fs ! i) = fileContents s" .
  have "fs ! i \<in> set fs" using i len by simp
  with p c show ?thesis by metis
qed

lemma same_columns_consistent:
  assumes "map filePath new = map filePath fs" and "map fileContents new = map fileContents fs"
      and "consistentFiles fs"
  shows "\<forall>a \<in> set new. \<forall>b \<in> set new. filePath a = filePath b \<longrightarrow> fileContents a = fileContents b"
proof (intro ballI impI)
  fix a b assume a: "a \<in> set new" and b: "b \<in> set new" and ab: "filePath a = filePath b"
  from same_columns_ex_rev[OF assms(1,2) a] obtain f where
    f: "f \<in> set fs" "filePath a = filePath f" "fileContents a = fileContents f" by blast
  from same_columns_ex_rev[OF assms(1,2) b] obtain g where
    g: "g \<in> set fs" "filePath b = filePath g" "fileContents b = fileContents g" by blast
  from f g ab have "filePath f = filePath g" by simp
  with assms(3) f(1) g(1) have "fileContents f = fileContents g"
    unfolding consistentFiles_def by blast
  with f g show "fileContents a = fileContents b" by simp
qed

lemma sync_agrees:
  assumes cons: "consistentFiles fs"
      and cols: "map filePath sts = map filePath fs" "map fileContents sts = map fileContents fs"
      and hd: "head (git fm) = h ++ writeFiles sts t"
  shows "agreesWith (generatedFilesMap (managedState (syncGeneratedFilesMapFromGit fm))) fs"
  unfolding agreesWith_def
proof
  fix f assume f: "f \<in> set fs"
  from same_columns_ex[OF cols f] obtain s where
    s: "s \<in> set sts" "filePath s = filePath f" "fileContents s = fileContents f" by blast
  have "writeFiles sts t (filePath s) = Some (fileContents s)"
    using same_columns_consistent[OF cols cons] s(1) by (rule writeFiles_consistent)
  with s have "writeFiles sts t (filePath f) = Some (fileContents f)" by simp
  then have "head (git fm) (filePath f) = Some (fileContents f)"
    by (simp add: hd map_add_Some_iff)
  then show "\<exists>e. generatedFilesMap (managedState (syncGeneratedFilesMapFromGit fm)) (filePath f) = Some e \<and>
               fileContents e = fileContents f"
    by (simp add: syncGeneratedFilesMapFromGit_def Let_def)
qed

lemma saveGeneratedFiles_agrees:
  assumes cons: "consistentFiles fs"
  shows "agreesWith (generatedFilesMap (managedState (snd (saveGeneratedFiles cp fs msg reply fm)))) fs"
proof -
  let ?m0 = "generatedFilesMap (managedState fm)"
  let ?loop = "saveLoop cp fm fs (?m0, [])"
  have a0: "agreesWith ?m0 []" by (simp add: agreesWith_def)
  have ag: "agreesWith (fst ?loop) fs"
    using saveLoop_agrees[OF a0, of fs cp fm "[]"] cons by simp
  from saveLoop_snd[of cp fm fs ?m0 "[]"] have
    cols: "map filePath (snd ?loop) = map filePath fs" "map fileContents (snd ?loop) = map fileContents fs"
    by auto
  let ?fm1 = "fm\<lparr>managedState := (managedState fm)\<lparr>generatedFilesMap := fst ?loop\<rparr>\<rparr>"
  have ag1: "agreesWith (generatedFilesMap (managedState ?fm1)) fs" using ag by simp
  have sync: "\<And>message. agreesWith (generatedFilesMap (managedState (syncGeneratedFilesMapFromGit
                (?fm1\<lparr>git := gitCommit (snd ?loop) message GitOk (git ?fm1)\<rparr>)))) fs"
    by (rule sync_agrees[OF cons cols]) (simp add: gitCommit_def Let_def)
  show ?thesis
    using ag1 sync
    by (cases ?loop) (auto simp: saveGeneratedFiles_def Let_def split: option.splits)
qed

lemmas save_eval = saveGeneratedFiles_def newFileState_def getFile_def getGeneratedFile_def
  getTemplateFile_def emptyFileManager_def initialState_def headerPatch_def gitCommit_def
  gitStage_def writeFiles_def Let_def FileOutputType.defs FileState.defs

lemma samePathTwice_first:
  "map_option fileContents (generatedFilesMap (managedState
      (snd (saveGeneratedFiles headerPatch samePathTwice (Some ''feat: app'') GitOk emptyFileManager)))
      ''src/App.tsx'') = Some ''v2'' \<and>
   length (gitCalls (git (snd (saveGeneratedFiles headerPatch samePathTwice (Some ''feat: app'') GitOk
        emptyFileManager)))) = 1"
  by (simp add: save_eval samePathTwice_def)

lemma samePathTwice_second:
  assumes "map_option fileContents (generatedFilesMap (managedState fm) ''src/App.tsx'') = Some ''v2''"
  shows "list_all (\<lambda>s. lastDiff s \<noteq> [])
           (fst (saveGeneratedFiles headerPatch samePathTwice (Some ''feat: app'') GitOk fm)) \<and>
         length (gitCalls (git (snd (saveGeneratedFiles headerPatch samePathTwice (Some ''feat: app'') GitOk fm)))) =
           Suc (length (gitCalls (git fm)))"
proof -
  from assms obtain e where e: "generatedFilesMap (managedState fm) ''src/App.tsx'' = Some e"
    "fileContents e = ''v2''" by auto
  show ?thesis
    by (simp add: saveGeneratedFiles_def newFileState_def headerPatch_def gitCommit_def
        syncGeneratedFilesMapFromGit_def Let_def FileOutputType.defs FileState.defs samePathTwice_def e)
qed

text \<open>
  Claim C7 as stated fails for a list that gives one path twice with different
  contents. The list \<open>samePathTwice\<close> holds \<open>src/App.tsx\<close> with the contents \<open>v1\<close> and
  then \<open>v2\<close>. After the first call the map holds \<open>v2\<close>; in the second call, with the
  identical list, \<open>v1\<close> is compared with \<open>v2\<close> and then \<open>v2\<close> with \<open>v1\<close>: both file
  states have a diff that is not empty, and a second commit is made.
\<close>

theorem saveGeneratedFiles_same_path_twice:
  "list_all (\<lambda>s. lastDiff s \<noteq> [])
     (fst (saveGeneratedFiles headerPatch samePathTwice (Some ''feat: app'') GitOk
        (snd (saveGeneratedFiles headerPatch samePathTwice (Some ''feat: app'') GitOk emptyFileManager)))) \<and>
   length (gitCalls (git (snd (saveGeneratedFiles headerPatch samePathTwice (Some ''feat: app'') GitOk
        emptyFileManager)))) = 1 \<and>
   length (gitCalls (git (snd (saveGeneratedFiles headerPatch samePathTwice (Some ''feat: app'') GitOk
        (snd (saveGeneratedFiles headerPatch samePathTwice (Some ''feat: app'') GitOk emptyFileManager)))))) = 2"
  using samePathTwice_first samePathTwice_second[of "snd (saveGeneratedFiles headerPatch samePathTwice
     (Some ''feat: app'') GitOk emptyFileManager)"]
  by simp

text \<open>
  Claim C7, amended. Let \<open>fs\<close> be a list of files in which files of the same path have
  the same contents (in particular any list with pairwise distinct paths). When
  \<^verbatim>\<open>saveGeneratedFiles\<close> is called twice in sequence with \<open>fs\<close>, with any commit
  messages and whatever the git store replies to the first call, the second call
  returns one file state for each file, each with an empty \<^verbatim>\<open>lastDiff\<close>, and makes no
  call of the git store: no commit and no stage, the store is as the first call left
  it.
\<close>

theorem saveGeneratedFiles_idempotent:
  assumes cons: "consistentFiles fs"
      and first: "saveGeneratedFiles createPatch fs msg1 reply1 fm = (states1, fm1)"
      and second: "saveGeneratedFiles createPatch fs msg2 reply2 fm1 = (states2, fm2)"
  shows "(\<forall>s \<in> set states2. lastDiff s = []) \<and>
         length states2 = length fs \<and>
         git fm2 = git fm1 \<and>
         gitCalls (git fm2) = gitCalls (git fm1)"
proof -
  let ?m1 = "generatedFilesMap (managedState fm1)"
  have ag: "agreesWith ?m1 fs"
    using saveGeneratedFiles_agrees[OF cons, of createPatch msg1 reply1 fm] first by simp
  from saveLoop_nodiff[OF ag cons, of createPatch fm1 "[]"] obtain new where
    n: "snd (saveLoop createPatch fm1 fs (?m1, [])) = new" "\<forall>s \<in> set new. lastDiff s = []"
       "length new = length fs"
    by auto
  from n(2) have nex: "\<not> list_ex (\<lambda>fileState. lastDiff fileState \<noteq> []) new"
    by (simp add: list_ex_iff)
  from second n(1) nex have "states2 = new" and "git fm2 = git fm1"
    by (cases "saveLoop createPatch fm1 fs (?m1, [])"; simp add: saveGeneratedFiles_def Let_def; fastforce)+
  with n show ?thesis by simp
qed
text \<open>
  An instance of the amended claim C7: two files with distinct paths, saved twice with a
  commit message. The first call commits once; the second leaves the git store alone.
\<close>

theorem saveGeneratedFiles_idempotent_witness:
  "consistentFiles twoFiles \<and>
   list_all (\<lambda>s. lastDiff s = []) (fst (saveGeneratedFiles headerPatch twoFiles (Some ''feat: app'') GitOk
        (snd (saveGeneratedFiles headerPatch twoFiles (Some ''feat: app'') GitOk emptyFileManager)))) \<and>
   length (fst (saveGeneratedFiles headerPatch twoFiles (Some ''feat: app'') GitOk
        (snd (saveGeneratedFiles headerPatch twoFiles (Some ''feat: app'') GitOk emptyFileManager)))) = 2 \<and>
   git (snd (saveGeneratedFiles headerPatch twoFiles (Some ''feat: app'') GitOk
        (snd (saveGeneratedFiles headerPatch twoFiles (Some ''feat: app'') GitOk emptyFileManager)))) =
   git (snd (saveGeneratedFiles headerPatch twoFiles (Some ''feat: app'') GitOk emptyFileManager)) \<and>
   length (gitCalls (git (snd (saveGeneratedFiles headerPatch twoFiles (Some ''feat: app'') GitOk
        emptyFileManager)))) = 1"
proof -
  let ?first = "saveGeneratedFiles headerPatch twoFiles (Some ''feat: app'') GitOk emptyFileManager"
  let ?second = "saveGeneratedFiles headerPatch twoFiles (Some ''feat: app'') GitOk (snd ?first)"
  have c: "consistentFiles twoFiles"
    by (simp add: consistentFiles_def twoFiles_def)
  have f: "?first = (fst ?first, snd ?first)" by simp
  have s: "?second = (fst ?second, snd ?second)" by simp
  from saveGeneratedFiles_idempotent[OF c f s]
  have all: "\<forall>s \<in> set (fst ?second). lastDiff s = []" and len: "length (fst ?second) = length twoFiles"
    and g: "git (snd ?second) = git (snd ?first)" by blast+
  from len have l2: "length (fst ?second) = 2" by (simp add: twoFiles_def)
  from all have la: "list_all (\<lambda>s. lastDiff s = []) (fst ?second)" by (simp add: list_all_iff)
  have one: "length (gitCalls (git (snd ?first))) = 1"
    by (simp add: save_eval twoFiles_def)
  from c la l2 g one show ?thesis by blast
qed

lemma saveLoop_fst_other:
  "p \<notin> filePath ` set fs \<Longrightarrow> fst (saveLoop cp fm fs (m, acc)) p = m p"
  by (induction fs arbitrary: m acc) auto

lemma last_filter_Cons:
  "filter P xs \<noteq> [] \<Longrightarrow> last (filter P (x # xs)) = last (filter P xs)"
  by simp

lemma truncate_newFileState:
  "FileOutputType.truncate (newFileState cp fm m f) = f"
  by (simp add: newFileState_def Let_def FileOutputType.defs FileState.defs)

lemma saveLoop_fst_last:
  assumes "p \<in> filePath ` set fs"
  shows "\<exists>e. fst (saveLoop cp fm fs (m, acc)) p = Some e \<and>
             FileOutputType.truncate e = last (filter (\<lambda>f. filePath f = p) fs)"
  using assms
proof (induction fs arbitrary: m acc)
  case Nil
  then show ?case by simp
next
  case (Cons f fs)
  let ?st = "newFileState cp fm m f"
  show ?case
  proof (cases "p \<in> filePath ` set fs")
    case True
    then have ne: "filter (\<lambda>f. filePath f = p) fs \<noteq> []"
      by (auto simp: filter_empty_conv)
    have "\<exists>e. fst (saveLoop cp fm fs (m(filePath f \<mapsto> ?st), acc @ [?st])) p = Some e \<and>
             FileOutputType.truncate e = last (filter (\<lambda>f. filePath f = p) fs)"
      using True by (rule Cons.IH)
    then show ?thesis
      by (simp only: saveLoop.simps last_filter_Cons[OF ne])
  next
    case False
    with Cons.prems have pf: "p = filePath f" by auto
    from False have e: "filter (\<lambda>f. filePath f = p) fs = []"
      by (auto simp: filter_empty_conv)
    have "fst (saveLoop cp fm fs (m(filePath f \<mapsto> ?st), acc @ [?st])) p = (m(filePath f \<mapsto> ?st)) p"
      using False by (rule saveLoop_fst_other)
    then have 1: "fst (saveLoop cp fm (f # fs) (m, acc)) p = Some ?st"
      using pf by (simp only: saveLoop.simps fun_upd_same)
    have 2: "last (filter (\<lambda>f. filePath f = p) (f # fs)) = f" using pf e by simp
    from 1 2 truncate_newFileState[of cp fm m f] show ?thesis by simp
  qed
qed

lemma saveLoop_truncate:
  "map FileOutputType.truncate (snd (saveLoop cp fm fs (m, acc))) =
     map FileOutputType.truncate acc @ fs"
  by (induction fs arbitrary: m acc) (simp_all add: truncate_newFileState)

text \<open>
  Claim C10. When the call of the git store made by \<^verbatim>\<open>saveGeneratedFiles\<close> throws
  (a commit or a stage), the call still returns the file states of the files given, in
  order. The map of generated files in the state holds, for every path given, the last
  file given for that path, and is unchanged elsewhere. The files at HEAD and the staged
  files of the git store are unchanged, so the map can differ from the files at HEAD.
\<close>

theorem saveGeneratedFiles_git_failure:
  assumes "saveGeneratedFiles createPatch fs commitMessage GitThrows fm = (states, fm')"
  shows "map FileOutputType.truncate states = fs \<and>
         (\<forall>p \<in> filePath ` set fs. \<exists>e.
             generatedFilesMap (managedState fm') p = Some e \<and>
             FileOutputType.truncate e = last (filter (\<lambda>f. filePath f = p) fs)) \<and>
         (\<forall>p. p \<notin> filePath ` set fs \<longrightarrow>
             generatedFilesMap (managedState fm') p = generatedFilesMap (managedState fm) p) \<and>
         head (git fm') = head (git fm) \<and> staged (git fm') = staged (git fm)"
proof -
  let ?m0 = "generatedFilesMap (managedState fm)"
  let ?loop = "saveLoop createPatch fm fs (?m0, [])"
  from assms have st: "states = snd ?loop"
    by (cases ?loop) (auto simp: saveGeneratedFiles_def Let_def)
  from assms have mp: "generatedFilesMap (managedState fm') = fst ?loop"
    by (cases ?loop)
       (auto simp: saveGeneratedFiles_def Let_def gitCommit_def gitStage_def
             split: if_splits option.splits)
  from assms have g: "head (git fm') = head (git fm) \<and> staged (git fm') = staged (git fm)"
    by (cases ?loop)
       (auto simp: saveGeneratedFiles_def Let_def gitCommit_def gitStage_def
             split: if_splits option.splits)
  have 1: "map FileOutputType.truncate states = fs"
    using saveLoop_truncate[of createPatch fm fs ?m0 "[]"] st by simp
  have 2: "\<forall>p \<in> filePath ` set fs. \<exists>e.
             generatedFilesMap (managedState fm') p = Some e \<and>
             FileOutputType.truncate e = last (filter (\<lambda>f. filePath f = p) fs)"
    using saveLoop_fst_last[of _ fs createPatch fm ?m0 "[]"] mp by simp
  have 3: "\<forall>p. p \<notin> filePath ` set fs \<longrightarrow>
             generatedFilesMap (managedState fm') p = ?m0 p"
    using saveLoop_fst_other[of _ fs createPatch fm ?m0 "[]"] mp by simp
  from 1 2 3 g show ?thesis by blast
qed
text \<open>
  An instance of claim C10: one new file is saved with a commit message and the commit
  throws. The file state is returned, the map holds the file, a commit was attempted,
  and HEAD has no such file.
\<close>

theorem saveGeneratedFiles_git_failure_witness:
  "fst (saveGeneratedFiles headerPatch oneFile (Some ''feat: app'') GitThrows emptyFileManager) =
     [\<lparr>filePath = ''src/App.tsx'', fileContents = ''v1'', filePurpose = ''app'',
       lastDiff = ''Index: src/App.tsx\<newline>--- \<newline>+++ v1''\<rparr>] \<and>
   map_option fileContents (generatedFilesMap (managedState
     (snd (saveGeneratedFiles headerPatch oneFile (Some ''feat: app'') GitThrows emptyFileManager)))
       ''src/App.tsx'') = Some ''v1'' \<and>
   head (git (snd (saveGeneratedFiles headerPatch oneFile (Some ''feat: app'') GitThrows emptyFileManager)))
       ''src/App.tsx'' = None \<and>
   length (gitCalls (git
     (snd (saveGeneratedFiles headerPatch oneFile (Some ''feat: app'') GitThrows emptyFileManager)))) = 1"
proof -
  let ?r = "saveGeneratedFiles headerPatch oneFile (Some ''feat: app'') GitThrows emptyFileManager"
  have eq: "?r = (fst ?r, snd ?r)" by simp
  from saveGeneratedFiles_git_failure[OF eq]
  have h: "head (git (snd ?r)) = head (git emptyFileManager)" by blast
  have 1: "fst ?r = [\<lparr>filePath = ''src/App.tsx'', fileContents = ''v1'', filePurpose = ''app'',
       lastDiff = ''Index: src/App.tsx\<newline>--- \<newline>+++ v1''\<rparr>]"
    by (simp add: save_eval oneFile_def)
  have 2: "map_option fileContents (generatedFilesMap (managedState (snd ?r)) ''src/App.tsx'') = Some ''v1''"
    by (simp add: save_eval oneFile_def)
  have 3: "length (gitCalls (git (snd ?r))) = 1"
    by (simp add: save_eval oneFile_def)
  from h have 4: "head (git (snd ?r)) ''src/App.tsx'' = None"
    by (simp add: emptyFileManager_def)
  from 1 2 3 4 show ?thesis by blast
qed
subsection \<open>State migration\<close>





















end
